theory Spec2Isabelle
  imports Main
begin

section \<open>Values of the Python program\<close>

text \<open>
  The development embeds \<open>DataLoader.py\<close>: the generator of the multi-speaker corpus,
  the loader of the generated layout and the loader of the \<open>.npy\<close> snapshot.

  Exceptions are values: every function that can raise returns \<open>error + 'a\<close>, with
  \<open>Inl\<close> for the exception.
\<close>

datatype error =
    FileNotFoundError string
  | ValueError string
  | AxisError
  | ZeroDivisionError
  | AttributeError string

text \<open>
  A NumPy array of integers, as far as the program builds them: one-dimensional,
  two-dimensional with its shape \<open>(n, m)\<close> and its \<open>n\<close> rows, or a one-dimensional
  object array whose cells are one-dimensional arrays (what \<open>np.array\<close> makes of rows
  of unequal length in the NumPy releases the program was written for).
  Samples are \<open>int\<close>: the 16-bit samples of the files are summed by \<open>np.sum\<close> in the
  platform integer, which twenty of them cannot overflow.
\<close>

datatype ndarray =
    Arr1 "int list"
  | Arr2 nat nat "int list list"
  | ArrObj "int list list"

text \<open>
  The Python objects \<open>load_data\<close> can return: a tuple, an array, an integer, and the
  lazy iterator that \<open>map(f, xs)\<close> builds, given by the values it yields.
\<close>

datatype pyobj =
    PyArray ndarray
  | PyInt int
  | PyTuple "pyobj list"
  | PyMap "pyobj list"

text \<open>A WAV file on disk: sample rate, channel count, and the frames (one sample per channel).\<close>

record wavfile =
  rate :: nat
  channels :: nat
  frames :: "int list list"

subsection \<open>Sequencing of computations that may raise\<close>

fun mapE :: "('a \<Rightarrow> 'e + 'b) \<Rightarrow> 'a list \<Rightarrow> 'e + 'b list" where
  "mapE f [] = Inr []"
| "mapE f (x # xs) =
     (case f x of
        Inl e \<Rightarrow> Inl e
      | Inr y \<Rightarrow> (case mapE f xs of Inl e \<Rightarrow> Inl e | Inr ys \<Rightarrow> Inr (y # ys)))"

fun foldE :: "('a \<Rightarrow> 's \<Rightarrow> 'e + 's) \<Rightarrow> 'a list \<Rightarrow> 's \<Rightarrow> 'e + 's" where
  "foldE f [] s = Inr s"
| "foldE f (x # xs) s = (case f x s of Inl e \<Rightarrow> Inl e | Inr s' \<Rightarrow> foldE f xs s')"

subsection \<open>Formatting and ranges\<close>

definition digit_char :: "nat \<Rightarrow> char" where
  "digit_char d = ''0123456789'' ! d"

text \<open>\<open>f'{n}'\<close> for a non-negative integer: its decimal digits.\<close>

fun str :: "nat \<Rightarrow> string" where
  "str n = (if n < 10 then [digit_char n] else str (n div 10) @ [digit_char (n mod 10)])"

declare str.simps [simp del]

text \<open>\<open>range(0, stop, step)\<close>; a zero step raises.\<close>

definition range_step :: "nat \<Rightarrow> nat \<Rightarrow> error + nat list" where
  "range_step stop step =
     (if step = 0 then Inl (ValueError ''range() arg 3 must not be zero'')
      else Inr (map (\<lambda>j. j * step) [0..<(stop + step - 1) div step]))"

section \<open>The world the program runs in\<close>

text \<open>
  The file system holds three kinds of files, told apart by their extension: the
  single-speaker recordings \<open>*.WAV\<close> (one channel each, so \<open>wavfile.read\<close> gives a
  one-dimensional array), the \<open>*.wav\<close> files of the generated layout, and the \<open>.npy\<close>
  snapshots. Each store is an association list from path to content; its order is the
  order in which \<open>glob\<close> enumerates. Paths are compared as strings. Files are
  well-formed and the file system is writable: decoding and I/O failures are outside
  the model.

  \<open>logged\<close> is what \<open>write_log\<close> has printed. \<open>py_rng\<close> and \<open>np_rng\<close> are the states
  of the two global generators, Python's \<open>random\<close> and NumPy's \<open>np.random\<close>.
  \<open>attrs\<close> are the attributes \<open>setattr\<close> has put on the loader object.
\<close>

record world =
  dirs :: "string set"
  src_wavs :: "(string \<times> int list) list"
  wavs :: "(string \<times> wavfile) list"
  npys :: "(string \<times> ndarray) list"
  logged :: "string list"
  py_rng :: nat
  np_rng :: nat
  attrs :: "(string \<times> ndarray) list"

text \<open>
  The random number generators are library code. A generator is given by what one
  shuffle of \<open>n\<close> items does in state \<open>g\<close>: the order it draws (the item that ends up
  at each position) and the state it leaves.
\<close>

record lib =
  random_shuffle :: "nat \<Rightarrow> nat \<Rightarrow> nat list \<times> nat"
  np_shuffle :: "nat \<Rightarrow> nat \<Rightarrow> nat list \<times> nat"

text \<open>The class attributes and the constructor's arguments.\<close>

record dataloader =
  train_src_dir :: string
  test_src_dir :: string
  train_dest_dir :: string
  test_dest_dir :: string
  min_speakers :: nat
  max_speakers :: nat
  sampled_at :: nat
  pad_to :: nat
  save_to_file :: bool
  load_from_file :: bool

text \<open>The class as the source declares it, for the four given directories.\<close>

definition dataloader_init :: "string \<Rightarrow> string \<Rightarrow> string \<Rightarrow> string \<Rightarrow> dataloader" where
  "dataloader_init train_src test_src train_dest test_dest =
     \<lparr>train_src_dir = train_src, test_src_dir = test_src,
      train_dest_dir = train_dest, test_dest_dir = test_dest,
      min_speakers = 2, max_speakers = 20,
      sampled_at = 16000, pad_to = 16000 * 5,
      save_to_file = False, load_from_file = True\<rparr>"

text \<open>
  \<open>write_log\<close> comes from the \<open>helpers\<close> module, which is not among the sources; it is
  taken to append its message to the log and to touch nothing else.
\<close>

definition write_log :: "string \<Rightarrow> world \<Rightarrow> world" where
  "write_log msg w = w\<lparr>logged := logged w @ [msg]\<rparr>"

subsection \<open>Files\<close>

text \<open>Writing a file replaces the content at its path, or adds the path at the end.\<close>

fun write_file :: "string \<Rightarrow> 'a \<Rightarrow> (string \<times> 'a) list \<Rightarrow> (string \<times> 'a) list" where
  "write_file p c [] = [(p, c)]"
| "write_file p c ((q, d) # fs) = (if q = p then (p, c) # fs else (q, d) # write_file p c fs)"

fun strip_prefix :: "string \<Rightarrow> string \<Rightarrow> string option" where
  "strip_prefix [] s = Some s"
| "strip_prefix (c # cs) [] = None"
| "strip_prefix (c # cs) (d # ds) = (if c = d then strip_prefix cs ds else None)"

text \<open>
  \<open>glob.glob(dir + '/*' + ext)\<close>: the paths directly under \<open>dir\<close> whose name ends in
  \<open>ext\<close>; \<open>*\<close> matches no \<open>/\<close> and no name that starts with a dot.
\<close>

definition glob_match :: "string \<Rightarrow> string \<Rightarrow> string \<Rightarrow> bool" where
  "glob_match dir ext p =
     (case strip_prefix (dir @ ''/'') p of
        None \<Rightarrow> False
      | Some name \<Rightarrow>
          CHR ''/'' \<notin> set name \<and> length ext \<le> length name \<and>
          drop (length name - length ext) name = ext \<and>
          take 1 name \<noteq> ''.'')"

definition glob :: "(string \<times> 'a) list \<Rightarrow> string \<Rightarrow> string \<Rightarrow> string list" where
  "glob store dir ext = filter (glob_match dir ext) (map fst store)"

definition read_file :: "(string \<times> 'a) list \<Rightarrow> string \<Rightarrow> error + 'a" where
  "read_file store p =
     (case map_of store p of None \<Rightarrow> Inl (FileNotFoundError p) | Some c \<Rightarrow> Inr c)"

text \<open>The ancestors of a path: its proper prefixes that end before a \<open>/\<close>.\<close>

fun ancestors :: "string \<Rightarrow> string \<Rightarrow> string list" where
  "ancestors acc [] = []"
| "ancestors acc (c # cs) =
     (if c = CHR ''/'' \<and> acc \<noteq> [] then [acc] else []) @ ancestors (acc @ [c]) cs"

text \<open>\<open>Path(p).mkdir(parents=True, exist_ok=True)\<close>.\<close>

definition mkdir_parents :: "string \<Rightarrow> world \<Rightarrow> world" where
  "mkdir_parents p w = w\<lparr>dirs := dirs w \<union> set (ancestors [] p) \<union> {p}\<rparr>"

subsection \<open>NumPy and SciPy\<close>

text \<open>\<open>np.pad(x, (before, after))\<close> with zeros; a negative width raises.\<close>

definition np_pad :: "int list \<Rightarrow> int \<Rightarrow> int \<Rightarrow> error + int list" where
  "np_pad x pad_before pad_after =
     (if pad_before < 0 \<or> pad_after < 0 then Inl (ValueError ''negative pad width'')
      else Inr (replicate (nat pad_before) 0 @ x @ replicate (nat pad_after) 0))"

text \<open>\<open>np.array(rows)\<close> of a list of one-dimensional arrays.\<close>

definition np_array :: "int list list \<Rightarrow> ndarray" where
  "np_array rs =
     (case rs of
        [] \<Rightarrow> Arr1 []
      | r # _ \<Rightarrow>
          if \<forall>r' \<in> set rs. length r' = length r then Arr2 (length rs) (length r) rs
          else ArrObj rs)"

text \<open>The transpose \<open>a.T\<close>.\<close>

fun np_T :: "ndarray \<Rightarrow> ndarray" where
  "np_T (Arr2 n m rs) = Arr2 m n (map (\<lambda>j. map (\<lambda>r. r ! j) rs) [0..<m])"
| "np_T a = a"

text \<open>\<open>len(a)\<close> and \<open>a[indices]\<close> along the first axis.\<close>

fun np_len :: "ndarray \<Rightarrow> nat" where
  "np_len (Arr1 xs) = length xs"
| "np_len (Arr2 n m rs) = n"
| "np_len (ArrObj rs) = length rs"

fun np_take :: "ndarray \<Rightarrow> nat list \<Rightarrow> ndarray" where
  "np_take (Arr1 xs) idx = Arr1 (map (\<lambda>i. xs ! i) idx)"
| "np_take (Arr2 n m rs) idx = Arr2 (length idx) m (map (\<lambda>i. rs ! i) idx)"
| "np_take (ArrObj rs) idx = ArrObj (map (\<lambda>i. rs ! i) idx)"

text \<open>\<open>np.sum(a, axis=1)\<close>: the sum of each row; an array with one axis has no axis 1.\<close>

fun np_sum_axis1 :: "ndarray \<Rightarrow> error + int list" where
  "np_sum_axis1 (Arr2 n m rs) = Inr (map sum_list rs)"
| "np_sum_axis1 a = Inl AxisError"

text \<open>
  \<open>wavfile.write(file, rate, data)\<close>: a one-dimensional array is one channel; a
  two-dimensional one has a frame per row and a channel per column.
\<close>

fun wavfile_write :: "nat \<Rightarrow> ndarray \<Rightarrow> error + wavfile" where
  "wavfile_write r (Arr1 xs) = Inr \<lparr>rate = r, channels = 1, frames = map (\<lambda>x. [x]) xs\<rparr>"
| "wavfile_write r (Arr2 n m rs) = Inr \<lparr>rate = r, channels = m, frames = rs\<rparr>"
| "wavfile_write r (ArrObj rs) = Inl (ValueError ''Unsupported data type'')"

text \<open>
  \<open>wavfile.read\<close> gives the rate and the data, one-dimensional for a single channel.
  Every frame of a file holds one sample per channel.
\<close>

definition wavfile_read :: "wavfile \<Rightarrow> nat \<times> ndarray" where
  "wavfile_read f =
     (rate f,
      if channels f = 1 then Arr1 (map hd (frames f))
      else Arr2 (length (frames f)) (channels f) (frames f))"

text \<open>\<open>tuple(a)\<close> iterates the first axis.\<close>

fun py_tuple :: "ndarray \<Rightarrow> pyobj" where
  "py_tuple (Arr1 xs) = PyTuple (map PyInt xs)"
| "py_tuple (Arr2 n m rs) = PyTuple (map (\<lambda>r. PyArray (Arr1 r)) rs)"
| "py_tuple (ArrObj rs) = PyTuple (map (\<lambda>r. PyArray (Arr1 r)) rs)"

text \<open>\<open>max(xs, key=len)\<close>: the first longest element; an empty argument raises.\<close>

fun max_by_len :: "'a list list \<Rightarrow> error + 'a list" where
  "max_by_len [] = Inl (ValueError ''max() arg is an empty sequence'')"
| "max_by_len (x # xs) = Inr (fold (\<lambda>y m. if length m < length y then y else m) xs x)"

text \<open>
  Applying a drawn order to a sequence: position \<open>j\<close> receives item \<open>order ! j\<close>. The
  order of a shuffle of \<open>n\<close> items holds positions below \<open>n\<close> (\<open>draws_orders\<close> below says
  so of a generator); the properties that read the shuffled items assume it.
\<close>

definition permute :: "nat list \<Rightarrow> 'a list \<Rightarrow> 'a list" where
  "permute order xs = map (\<lambda>i. xs ! i) order"

text \<open>\<open>random.shuffle(x)\<close> reorders the list in place and advances Python's generator.\<close>

definition random_shuffle_list :: "lib \<Rightarrow> 'a list \<Rightarrow> world \<Rightarrow> 'a list \<times> world" where
  "random_shuffle_list L x w =
     (case random_shuffle L (py_rng w) (length x) of
        (order, g) \<Rightarrow> (permute order x, w\<lparr>py_rng := g\<rparr>))"

text \<open>
  \<open>sklearn.utils.shuffle(a, b)\<close> with no \<open>random_state\<close>: one order, drawn from NumPy's
  global generator, indexes both arrays.
\<close>

definition sklearn_shuffle :: "lib \<Rightarrow> ndarray \<Rightarrow> ndarray \<Rightarrow> world \<Rightarrow> (ndarray \<times> ndarray) \<times> world" where
  "sklearn_shuffle L a b w =
     (case np_shuffle L (np_rng w) (np_len a) of
        (order, g) \<Rightarrow> ((np_take a order, np_take b order), w\<lparr>np_rng := g\<rparr>))"

section \<open>Generating the corpus\<close>

text \<open>
  The body of the loop over the partitions of one bucket (source lines 179 to 184): pad
  every member to the longest, stack, transpose, and make the file.
\<close>

definition mixture :: "dataloader \<Rightarrow> int list list \<Rightarrow> error + wavfile" where
  "mixture self part =
     (case max_by_len part of
        Inl e \<Rightarrow> Inl e
      | Inr longest \<Rightarrow>
          (case mapE (\<lambda>x. np_pad x 0 (int (length longest) - int (length x))) part of
             Inl e \<Rightarrow> Inl e
           | Inr padded \<Rightarrow> wavfile_write (sampled_at self) (np_T (np_array padded))))"

text \<open>\<open>for i, part in enumerate(partitions)\<close>, from index \<open>i\<close> on.\<close>

fun write_partitions :: "dataloader \<Rightarrow> string \<Rightarrow> nat \<Rightarrow> int list list list \<Rightarrow> world \<Rightarrow> error + world" where
  "write_partitions self dest_dir i [] w = Inr w"
| "write_partitions self dest_dir i (part # rest) w =
     (case mixture self part of
        Inl e \<Rightarrow> Inl e
      | Inr f \<Rightarrow>
          write_partitions self dest_dir (Suc i) rest
            (w\<lparr>wavs := write_file (dest_dir @ ''/'' @ str i @ ''.wav'') f (wavs w)\<rparr>))"

text \<open>
  \<open>__create_concurrent_speakers\<close>. The list \<open>train\<close> is shared with the caller and
  \<open>random.shuffle\<close> changes it in place, so the function returns it with the world.
  \<open>np.array\<close> of a slice is iterated row by row, whether the rows have equal length
  or not; the slice stands for it.
\<close>

definition create_concurrent_speakers ::
  "lib \<Rightarrow> dataloader \<Rightarrow> int list list \<Rightarrow> string \<Rightarrow> nat \<Rightarrow> nat \<Rightarrow> bool \<Rightarrow> world
     \<Rightarrow> error + (int list list \<times> world)" where
  "create_concurrent_speakers L self train dest_dir num_speakers num_records shuffle w =
     (let dest_dir' = dest_dir @ ''/'' @ str num_speakers;
          w1 = mkdir_parents dest_dir' w;
          (train', w2) = (if shuffle then random_shuffle_list L train w1 else (train, w1))
      in case range_step (num_records * num_speakers) num_speakers of
           Inl e \<Rightarrow> Inl e
         | Inr starts \<Rightarrow>
             (case write_partitions self dest_dir' 0
                     (map (\<lambda>i. take num_speakers (drop i train')) starts) w2 of
                Inl e \<Rightarrow> Inl e
              | Inr w3 \<Rightarrow> Inr (train', w3)))"

text \<open>
  The loop \<open>for i in range(self.min_speakers, self.max_speakers + 1)\<close> of
  \<open>__generate_datasets\<close>, over the speaker counts still to do. Every call gets the one
  list \<open>data\<close>, as the calls before have left it.
\<close>

fun generate_buckets ::
  "lib \<Rightarrow> dataloader \<Rightarrow> string \<Rightarrow> nat \<Rightarrow> bool \<Rightarrow> nat list \<Rightarrow> int list list \<Rightarrow> world
     \<Rightarrow> error + (int list list \<times> world)" where
  "generate_buckets L self dest_dir num_records shuffle [] data w = Inr (data, w)"
| "generate_buckets L self dest_dir num_records shuffle (i # rest) data w =
     (case create_concurrent_speakers L self data dest_dir i num_records shuffle w of
        Inl e \<Rightarrow> Inl e
      | Inr (data', w') \<Rightarrow> generate_buckets L self dest_dir num_records shuffle rest data' w')"

text \<open>The body of the loop over the two splits in \<open>__generate_datasets\<close>.\<close>

definition generate_split :: "lib \<Rightarrow> dataloader \<Rightarrow> string \<times> string \<times> bool \<Rightarrow> world \<Rightarrow> error + world" where
  "generate_split L self d w =
     (case d of (src_dir, dest_dir, shuffle) \<Rightarrow>
        (let files = glob (src_wavs w) src_dir ''.WAV'' in
         if max_speakers self = 0 then Inl ZeroDivisionError
         else
           (let num_records_per_count = length files div max_speakers self in
            (case mapE (read_file (src_wavs w)) files of
               Inl e \<Rightarrow> Inl e
             | Inr data \<Rightarrow>
                 (case generate_buckets L self dest_dir num_records_per_count shuffle
                         [min_speakers self..<max_speakers self + 1] data w of
                    Inl e \<Rightarrow> Inl e
                  | Inr (data', w') \<Rightarrow> Inr w')))))"

text \<open>\<open>__generate_datasets\<close>: the train split is shuffled, the test split is not.\<close>

definition generate_datasets :: "lib \<Rightarrow> dataloader \<Rightarrow> world \<Rightarrow> error + world" where
  "generate_datasets L self w =
     (case foldE (generate_split L self)
             [(train_src_dir self, train_dest_dir self, True),
              (test_src_dir self, test_dest_dir self, False)]
             (write_log ''Generating data'' w) of
        Inl e \<Rightarrow> Inl e
      | Inr w' \<Rightarrow> Inr (write_log ''Data generated'' w'))"

section \<open>Loading the generated layout\<close>

text \<open>One bucket directory of one split: read every file, sum its channels.\<close>

definition load_bucket :: "world \<Rightarrow> string \<Rightarrow> error + int list list" where
  "load_bucket w dir =
     (case mapE (read_file (wavs w)) (glob (wavs w) dir ''.wav'') of
        Inl e \<Rightarrow> Inl e
      | Inr fs \<Rightarrow> mapE (\<lambda>f. np_sum_axis1 (snd (wavfile_read f))) fs)"

text \<open>The loop over the speaker counts, with the four lists it extends.\<close>

fun load_buckets ::
  "dataloader \<Rightarrow> world \<Rightarrow> nat list \<Rightarrow> int list list \<times> int list \<times> int list list \<times> int list
     \<Rightarrow> error + (int list list \<times> int list \<times> int list list \<times> int list)" where
  "load_buckets self w [] acc = Inr acc"
| "load_buckets self w (y # ys) (train_x, train_y, test_x, test_y) =
     (case load_bucket w (train_dest_dir self @ ''/'' @ str y) of
        Inl e \<Rightarrow> Inl e
      | Inr current_train_x \<Rightarrow>
          (case load_bucket w (test_dest_dir self @ ''/'' @ str y) of
             Inl e \<Rightarrow> Inl e
           | Inr current_test_x \<Rightarrow>
               load_buckets self w ys
                 (train_x @ current_train_x,
                  train_y @ replicate (length current_train_x) (int y),
                  test_x @ current_test_x,
                  test_y @ replicate (length current_test_x) (int y))))"

text \<open>\<open>np.pad(x, (0, max(self.pad_to - len(x), 0)))[:self.pad_to]\<close>.\<close>

definition pad_and_cut :: "dataloader \<Rightarrow> int list \<Rightarrow> error + int list" where
  "pad_and_cut self x =
     (case np_pad x 0 (max (int (pad_to self) - int (length x)) 0) of
        Inl e \<Rightarrow> Inl e
      | Inr padded \<Rightarrow> Inr (take (pad_to self) padded))"

text \<open>\<open>__save_to_file\<close> (a static method; the flag of the same name is a field above).\<close>

definition dataloader_save_to_file :: "ndarray \<Rightarrow> ndarray \<Rightarrow> ndarray \<Rightarrow> ndarray \<Rightarrow> world \<Rightarrow> world" where
  "dataloader_save_to_file train_x train_y test_x test_y w =
     (let w1 = write_log ''Saving data to filesystem'' w;
          w2 = w1\<lparr>npys := write_file ''train_x.npy'' train_x (npys w1)\<rparr>;
          w3 = w2\<lparr>npys := write_file ''train_y.npy'' train_y (npys w2)\<rparr>;
          w4 = w3\<lparr>npys := write_file ''test_x.npy'' test_x (npys w3)\<rparr>
      in w4\<lparr>npys := write_file ''test_y.npy'' test_y (npys w4)\<rparr>)"

text \<open>\<open>__load_datasets\<close>.\<close>

definition load_datasets :: "lib \<Rightarrow> dataloader \<Rightarrow> world \<Rightarrow> error + (pyobj \<times> world)" where
  "load_datasets L self w =
     (let w1 = write_log ''Loading data'' w in
      case load_buckets self w1 [min_speakers self..<max_speakers self + 1] ([], [], [], []) of
        Inl e \<Rightarrow> Inl e
      | Inr (train_x, train_y, test_x, test_y) \<Rightarrow>
          (case mapE (pad_and_cut self) train_x of
             Inl e \<Rightarrow> Inl e
           | Inr train_rows \<Rightarrow>
               (case mapE (pad_and_cut self) test_x of
                  Inl e \<Rightarrow> Inl e
                | Inr test_rows \<Rightarrow>
                    (case sklearn_shuffle L (np_array train_rows) (Arr1 train_y) w1 of
                       ((train_x', train_y'), w2) \<Rightarrow>
                         (case sklearn_shuffle L (np_array test_rows) (Arr1 test_y) w2 of
                            ((test_x', test_y'), w3) \<Rightarrow>
                              let w4 = write_log ''Data loaded'' w3;
                                  w5 = (if save_to_file self
                                        then dataloader_save_to_file train_x' train_y' test_x' test_y' w4
                                        else w4)
                              in Inr (PyTuple [PyArray train_x', PyArray train_y',
                                               PyArray test_x', PyArray test_y'], w5))))))"

section \<open>Loading the snapshot\<close>

text \<open>The loop of \<open>__load_from_file\<close> over the names of the four sets.\<close>

fun load_sets :: "string list \<Rightarrow> world \<Rightarrow> error + world" where
  "load_sets [] w = Inr w"
| "load_sets (s # sets) w =
     (let filename = s @ ''.npy'' in
      case map_of (npys w) filename of
        None \<Rightarrow> Inl (FileNotFoundError filename)
      | Some a \<Rightarrow> load_sets sets (w\<lparr>attrs := write_file s a (attrs w)\<rparr>))"

definition getattr :: "world \<Rightarrow> string \<Rightarrow> error + ndarray" where
  "getattr w s = (case map_of (attrs w) s of None \<Rightarrow> Inl (AttributeError s) | Some a \<Rightarrow> Inr a)"

text \<open>
  \<open>__load_from_file\<close> (the flag of the same name is a field above). It returns
  \<open>map(tuple, [...])\<close>: an iterator that yields \<open>tuple(a)\<close> for each of the four arrays.
\<close>

definition dataloader_load_from_file :: "world \<Rightarrow> error + (pyobj \<times> world)" where
  "dataloader_load_from_file w =
     (let sets = [''train_x'', ''train_y'', ''test_x'', ''test_y''] in
      case load_sets sets (write_log ''Loading data from filesystem'' w) of
        Inl e \<Rightarrow> Inl e
      | Inr w1 \<Rightarrow>
          let w2 = write_log ''Data loaded'' w1 in
          (case mapE (getattr w2) sets of
             Inl e \<Rightarrow> Inl e
           | Inr arrays \<Rightarrow> Inr (PyMap (map py_tuple arrays), w2)))"

section \<open>The entry point\<close>

text \<open>\<open>load_data\<close>; \<open>os.path.exists\<close> of a destination directory reads \<open>dirs\<close>.\<close>

definition load_data :: "lib \<Rightarrow> dataloader \<Rightarrow> bool \<Rightarrow> world \<Rightarrow> error + (pyobj \<times> world)" where
  "load_data L self force_recreate w =
     (case (if force_recreate then generate_datasets L self w else Inr w) of
        Inl e \<Rightarrow> Inl e
      | Inr w1 \<Rightarrow>
          if load_from_file self then dataloader_load_from_file w1
          else
            (case (if train_dest_dir self \<notin> dirs w1 \<or> test_dest_dir self \<notin> dirs w1
                   then generate_datasets L self w1 else Inr w1) of
               Inl e \<Rightarrow> Inl e
             | Inr w2 \<Rightarrow> load_datasets L self w2))"

section \<open>Vocabulary of the properties\<close>

text \<open>
  The path of the file with index \<open>i\<close> in the bucket of speaker count \<open>k\<close>:
  \<open>{dest_dir}/{k}/{i}.wav\<close>.
\<close>

definition bucket_file :: "string \<Rightarrow> nat \<Rightarrow> nat \<Rightarrow> string" where
  "bucket_file dest k i = dest @ ''/'' @ str k @ ''/'' @ str i @ ''.wav''"

text \<open>Channel \<open>c\<close> of a file: the samples at position \<open>c\<close> of its frames.\<close>

definition channel :: "wavfile \<Rightarrow> nat \<Rightarrow> int list" where
  "channel f c = map (\<lambda>fr. fr ! c) (frames f)"

text \<open>
  What the properties ask of the library's generators where they need it: a shuffle of
  \<open>n\<close> items draws a permutation of the positions \<open>0, ..., n - 1\<close>.
\<close>

definition is_order :: "nat \<Rightarrow> nat list \<Rightarrow> bool" where
  "is_order n order \<longleftrightarrow> length order = n \<and> set order = {..<n}"

definition draws_orders :: "lib \<Rightarrow> bool" where
  "draws_orders L \<longleftrightarrow>
     (\<forall>g n. is_order n (fst (random_shuffle L g n)) \<and> is_order n (fst (np_shuffle L g n)))"

text \<open>
  The sequence of recordings after \<open>j\<close> calls of \<open>__create_concurrent_speakers\<close> with
  the same \<open>shuffle\<close> flag, and the state of Python's generator then: with the flag set
  every call shuffles what the call before has left.
\<close>

fun reshuffled :: "lib \<Rightarrow> bool \<Rightarrow> nat \<Rightarrow> 'a list \<Rightarrow> nat \<Rightarrow> 'a list \<times> nat" where
  "reshuffled L shuffle g d 0 = (d, g)"
| "reshuffled L shuffle g d (Suc j) =
     (if shuffle
      then (case random_shuffle L g (length d) of
              (order, g') \<Rightarrow> reshuffled L shuffle g' (permute order d) j)
      else reshuffled L shuffle g d j)"

text \<open>The generated file at a path, if there is one.\<close>

definition wav_at :: "string \<Rightarrow> world \<Rightarrow> wavfile option" where
  "wav_at p w = map_of (wavs w) p"

text \<open>A waveform padded with zeros or cut to \<open>n\<close> samples.\<close>

definition fit :: "nat \<Rightarrow> int list \<Rightarrow> int list" where
  "fit n x = take n (x @ replicate (n - length x) 0)"

text \<open>
  The waveforms of bucket \<open>k\<close> under a destination directory, channels summed, in the
  order of enumeration; and the samples of a split before the shuffle, each waveform of
  bucket \<open>k\<close> fitted to \<open>pad_to\<close> and paired with the label \<open>k\<close>.
\<close>

definition bucket_waveforms :: "world \<Rightarrow> string \<Rightarrow> nat \<Rightarrow> int list list" where
  "bucket_waveforms w dest k =
     concat (map (\<lambda>p. case map_of (wavs w) p of
                          None \<Rightarrow> []
                        | Some f \<Rightarrow> [map sum_list (frames f)])
                 (glob (wavs w) (dest @ ''/'' @ str k) ''.wav''))"

definition labelled_samples :: "dataloader \<Rightarrow> world \<Rightarrow> string \<Rightarrow> (int list \<times> int) list" where
  "labelled_samples self w dest =
     concat (map (\<lambda>k. map (\<lambda>x. (fit (pad_to self) x, int k)) (bucket_waveforms w dest k))
                 [min_speakers self..<max_speakers self + 1])"

text \<open>The names of the four sets of a snapshot, in the order \<open>__load_from_file\<close> reads them.\<close>

definition snapshot_sets :: "string list" where
  "snapshot_sets = [''train_x'', ''train_y'', ''test_x'', ''test_y'']"

text \<open>The first set whose \<open>.npy\<close> file is absent, if any.\<close>

definition first_missing :: "world \<Rightarrow> string option" where
  "first_missing w = find (\<lambda>s. map_of (npys w) (s @ ''.npy'') = None) snapshot_sets"

section \<open>Concrete inputs\<close>

text \<open>
  A generator whose every shuffle moves the first item to the end, and one whose every
  shuffle reverses; each counts its calls in its state.
\<close>

definition rotating_lib :: lib where
  "rotating_lib =
     \<lparr>random_shuffle = (\<lambda>g n. (rotate 1 [0..<n], Suc g)),
      np_shuffle = (\<lambda>g n. (rev [0..<n], Suc g))\<rparr>"

text \<open>The loader as the class declares it, on four directories.\<close>

definition loader0 :: dataloader where
  "loader0 = dataloader_init ''src/train'' ''src/test'' ''gen/train'' ''gen/test''"

text \<open>
  A world with twenty-one train recordings, of one or two samples, one test recording,
  and nothing generated.
\<close>

definition world21 :: world where
  "world21 =
     \<lparr>dirs = {''src'', ''src/train'', ''src/test''},
      src_wavs =
       [(''src/train/r00.WAV'', [1]),
        (''src/train/r01.WAV'', [2, -2]),
        (''src/train/r02.WAV'', [3, -3]),
        (''src/train/r03.WAV'', [4]),
        (''src/train/r04.WAV'', [5, -5]),
        (''src/train/r05.WAV'', [6, -6]),
        (''src/train/r06.WAV'', [7]),
        (''src/train/r07.WAV'', [8, -8]),
        (''src/train/r08.WAV'', [9, -9]),
        (''src/train/r09.WAV'', [10]),
        (''src/train/r10.WAV'', [11, -11]),
        (''src/train/r11.WAV'', [12, -12]),
        (''src/train/r12.WAV'', [13]),
        (''src/train/r13.WAV'', [14, -14]),
        (''src/train/r14.WAV'', [15, -15]),
        (''src/train/r15.WAV'', [16]),
        (''src/train/r16.WAV'', [17, -17]),
        (''src/train/r17.WAV'', [18, -18]),
        (''src/train/r18.WAV'', [19]),
        (''src/train/r19.WAV'', [20, -20]),
        (''src/train/r20.WAV'', [21, -21]),
        (''src/test/t00.WAV'', [7, 7, 7])],
      wavs = [], npys = [], logged = [], py_rng = 0, np_rng = 0, attrs = []\<rparr>"

text \<open>The train recordings of that world, in the order of enumeration.\<close>

definition recordings21 :: "int list list" where
  "recordings21 = [[1], [2, - 2], [3, - 3], [4], [5, - 5], [6, - 6], [7], [8, - 8], [9, - 9], [10],
      [11, - 11], [12, - 12], [13], [14, - 14], [15, - 15], [16], [17, - 17], [18, - 18],
      [19], [20, - 20], [21, - 21]]"

text \<open>A loader whose test split reads the directory of the twenty-one recordings.\<close>

definition loader_swapped :: dataloader where
  "loader_swapped = dataloader_init ''src/test'' ''src/train'' ''gen/train'' ''gen/test''"

text \<open>The world after the bucket of two speakers has been made from four recordings.\<close>

definition world21_bucket2 :: world where
  "world21_bucket2 =
     world21\<lparr>dirs := {''src'', ''src/train'', ''src/test'', ''gen'', ''gen/train'', ''gen/train/2''},
             wavs := [(''gen/train/2/0.wav'', \<lparr>rate = 16000, channels = 2, frames = [[4, 5], [0, 6]]\<rparr>)],
             py_rng := 1\<rparr>"

text \<open>
  A world with a generated layout of three train files and one test file, and a loader
  that fits every waveform to four samples.
\<close>

definition world_layout :: world where
  "world_layout =
     \<lparr>dirs = {''gen'', ''gen/train'', ''gen/test'', ''gen/train/2'', ''gen/train/3'', ''gen/test/2''},
      src_wavs = [],
      wavs =
       [(''gen/train/2/0.wav'', \<lparr>rate = 16000, channels = 2, frames = [[1, 2], [3, 4]]\<rparr>),
        (''gen/train/2/1.wav'',
         \<lparr>rate = 16000, channels = 2, frames = [[1, 1], [2, 2], [3, 3], [4, 4], [5, 5]]\<rparr>),
        (''gen/train/3/0.wav'', \<lparr>rate = 16000, channels = 3, frames = [[1, 2, 3]]\<rparr>),
        (''gen/test/2/0.wav'', \<lparr>rate = 16000, channels = 2, frames = [[7, - 7]]\<rparr>)],
      npys = [], logged = [], py_rng = 0, np_rng = 5, attrs = []\<rparr>"

definition loader4 :: dataloader where
  "loader4 = loader0\<lparr>pad_to := 4, load_from_file := False\<rparr>"

text \<open>
  A second world with the same layout and the same state of NumPy's generator, and
  everything else different.
\<close>

definition world_layout_other :: world where
  "world_layout_other =
     world_layout\<lparr>dirs := {}, src_wavs := [(''src/train/r00.WAV'', [1])],
                  npys := [(''train_x.npy'', Arr1 [1])], logged := [''earlier''], py_rng := 3,
                  attrs := [(''train_y'', Arr1 [])]\<rparr>"

text \<open>
  A world that holds a complete snapshot and nothing else, and one whose test artifacts
  are absent.
\<close>

definition world_snapshot :: world where
  "world_snapshot =
     \<lparr>dirs = {}, src_wavs = [], wavs = [],
      npys =
       [(''train_x.npy'', Arr2 3 4 [[6, 0, 0, 0], [2, 4, 6, 8], [3, 7, 0, 0]]),
        (''train_y.npy'', Arr1 [3, 2, 2]),
        (''test_x.npy'', Arr2 1 4 [[0, 0, 0, 0]]),
        (''test_y.npy'', Arr1 [2])],
      logged = [], py_rng = 0, np_rng = 0, attrs = []\<rparr>"

definition world_half_snapshot :: world where
  "world_half_snapshot =
     world_snapshot\<lparr>npys := [(''train_x.npy'', Arr2 1 4 [[6, 0, 0, 0]]), (''train_y.npy'', Arr1 [3])]\<rparr>"

section \<open>Properties\<close>

subsection \<open>Computations that may raise\<close>

lemma mapE_Inr_length: "mapE f xs = Inr ys \<Longrightarrow> length ys = length xs"
  by (induction xs arbitrary: ys) (auto split: sum.splits)

lemma mapE_Inr_map:
  "(\<And>x. x \<in> set xs \<Longrightarrow> f x = Inr (g x)) \<Longrightarrow> mapE f xs = Inr (map g xs)"
  by (induction xs) auto

subsection \<open>The longest member and the padding of a partition\<close>

lemma fold_longest:
  "fold (\<lambda>y m. if length m < length y then y else m) xs x \<in> set (x # xs) \<and>
   length x \<le> length (fold (\<lambda>y m. if length m < length y then y else m) xs x) \<and>
   (\<forall>y \<in> set xs. length y \<le> length (fold (\<lambda>y m. if length m < length y then y else m) xs x))"
proof (induction xs arbitrary: x)
  case Nil
  then show ?case by simp
next
  case (Cons a xs)
  show ?case
  proof (cases "length x < length a")
    case True
    with Cons.IH [of a] show ?thesis by auto
  next
    case False
    with Cons.IH [of x] show ?thesis by auto
  qed
qed

lemma max_by_len_Inr:
  assumes "max_by_len part = Inr longest"
  shows "longest \<in> set part" and "\<And>x. x \<in> set part \<Longrightarrow> length x \<le> length longest"
proof -
  obtain y ys where p: "part = y # ys" using assms by (cases part) auto
  with assms have l: "longest = fold (\<lambda>y m. if length m < length y then y else m) ys y" by simp
  show "longest \<in> set part" using fold_longest [of ys y] p l by simp
  fix x assume "x \<in> set part"
  then show "length x \<le> length longest" using fold_longest [of ys y] p l by auto
qed

lemma max_by_len_nonempty: "part \<noteq> [] \<Longrightarrow> \<exists>longest. max_by_len part = Inr longest"
  by (cases part) auto

lemma np_pad_right: "0 \<le> a \<Longrightarrow> np_pad x 0 a = Inr (x @ replicate (nat a) 0)"
  by (simp add: np_pad_def)

lemma pad_partition:
  assumes "max_by_len part = Inr longest"
  shows "mapE (\<lambda>x. np_pad x 0 (int (length longest) - int (length x))) part =
         Inr (map (\<lambda>x. x @ replicate (length longest - length x) 0) part)"
proof (rule mapE_Inr_map)
  fix x assume "x \<in> set part"
  then have "length x \<le> length longest" using max_by_len_Inr(2) [OF assms] by simp
  then show "np_pad x 0 (int (length longest) - int (length x)) =
             Inr (x @ replicate (length longest - length x) 0)"
    by (simp add: np_pad_right nat_diff_distrib')
qed

lemma mixture_eq:
  assumes "max_by_len part = Inr longest"
  shows "mixture self part =
         Inr \<lparr>rate = sampled_at self, channels = length part,
              frames = map (\<lambda>j. map (\<lambda>x. (x @ replicate (length longest - length x) 0) ! j) part)
                         [0..<length longest]\<rparr>"
proof -
  let ?padded = "map (\<lambda>x. x @ replicate (length longest - length x) 0) part"
  obtain y ys where p: "part = y # ys" using assms by (cases part) auto
  have len: "\<And>x. x \<in> set part \<Longrightarrow> length x \<le> length longest"
    using max_by_len_Inr(2) [OF assms] .
  have rows: "\<forall>r \<in> set ?padded. length r = length longest"
    using len by auto
  have hd_len: "length (y @ replicate (length longest - length y) 0) = length longest"
    using len [of y] p by simp
  have arr: "np_array ?padded = Arr2 (length part) (length longest) ?padded"
    using rows hd_len unfolding np_array_def p by simp
  show ?thesis
    unfolding mixture_def using assms pad_partition [OF assms] arr
    by (simp add: comp_def)
qed

text \<open>
  C9. In the writer, the pad target is the length of the longest member of the partition,
  so for every member \<open>x\<close> of a non-empty partition the pad amount, the longest length
  minus \<open>len(x)\<close>, is not negative; \<open>np.pad\<close> gets a valid width for every member, the
  padding step returns the padded members, and the loop body makes its file.
\<close>

theorem pad_amount_nonneg:
  assumes "part \<noteq> []"
  shows "\<exists>longest padded f.
           max_by_len part = Inr longest \<and>
           (\<forall>x \<in> set part. 0 \<le> int (length longest) - int (length x)) \<and>
           mapE (\<lambda>x. np_pad x 0 (int (length longest) - int (length x))) part = Inr padded \<and>
           length padded = length part \<and>
           mixture self part = Inr f"
proof -
  obtain longest where m: "max_by_len part = Inr longest"
    using max_by_len_nonempty [OF assms] by blast
  have "\<forall>x \<in> set part. 0 \<le> int (length longest) - int (length x)"
    using max_by_len_Inr(2) [OF m] by simp
  moreover note pad_partition [OF m] mixture_eq [OF m]
  ultimately show ?thesis using m by auto
qed

theorem pad_amount_nonneg_witness:
  "[[1, 2], [3::int]] \<noteq> [] \<and>
   (\<exists>longest padded f.
      max_by_len [[1, 2], [3::int]] = Inr longest \<and>
      (\<forall>x \<in> set [[1, 2], [3::int]]. 0 \<le> int (length longest) - int (length x)) \<and>
      mapE (\<lambda>x. np_pad x 0 (int (length longest) - int (length x))) [[1, 2], [3]] = Inr padded \<and>
      length padded = length [[1, 2], [3::int]] \<and>
      mixture (dataloader_init ''a'' ''b'' ''c'' ''d'') [[1, 2], [3]] = Inr f)"
  using pad_amount_nonneg [of "[[1, 2], [3::int]]" "dataloader_init ''a'' ''b'' ''c'' ''d''"]
  by simp

subsection \<open>Decimal numerals and paths\<close>

lemma digit_cases:
  "a < 10 \<Longrightarrow> a = 0 \<or> a = 1 \<or> a = 2 \<or> a = 3 \<or> a = 4 \<or> a = 5 \<or> a = 6 \<or> a = 7 \<or> a = 8 \<or> a = (9::nat)"
  by arith

lemma digit_char_inj: "a < 10 \<Longrightarrow> b < 10 \<Longrightarrow> digit_char a = digit_char b \<Longrightarrow> a = b"
proof -
  assume a: "a < 10" and b: "b < 10" and e: "digit_char a = digit_char b"
  from digit_cases [OF a] digit_cases [OF b] e show "a = b"
    by (elim disjE) (simp_all add: digit_char_def)
qed

lemma digit_char_not_sep: "a < 10 \<Longrightarrow> digit_char a \<noteq> CHR ''/'' \<and> digit_char a \<noteq> CHR ''.''"
  using digit_cases [of a] by (auto simp: digit_char_def)

lemma str_nonempty: "str n \<noteq> []"
  by (subst str.simps) simp

lemma str_no_sep: "CHR ''/'' \<notin> set (str n) \<and> CHR ''.'' \<notin> set (str n)"
proof (induction n rule: str.induct)
  case (1 n)
  show ?case
  proof (cases "n < 10")
    case True
    then show ?thesis using digit_char_not_sep [of n] by (subst str.simps, subst (2) str.simps) auto
  next
    case False
    then show ?thesis using 1 digit_char_not_sep [of "n mod 10"]
      by (subst str.simps, subst (2) str.simps) auto
  qed
qed

lemma str_inj: "str m = str n \<Longrightarrow> m = n"
proof (induction m arbitrary: n rule: str.induct)
  case (1 m)
  show ?case
  proof (cases "m < 10")
    case m: True
    show ?thesis
    proof (cases "n < 10")
      case True
      with m 1(2) show ?thesis by (simp add: str.simps [of m] str.simps [of n] digit_char_inj)
    next
      case False
      with m 1(2) have "[digit_char m] = str (n div 10) @ [digit_char (n mod 10)]"
        by (simp add: str.simps [of m] str.simps [of n])
      then show ?thesis using str_nonempty [of "n div 10"] by (cases "str (n div 10)") auto
    qed
  next
    case m: False
    show ?thesis
    proof (cases "n < 10")
      case True
      with m 1(2) have "str (m div 10) @ [digit_char (m mod 10)] = [digit_char n]"
        by (simp add: str.simps [of m] str.simps [of n])
      then show ?thesis using str_nonempty [of "m div 10"] by (cases "str (m div 10)") auto
    next
      case False
      with m 1(2) have e: "str (m div 10) = str (n div 10)" "digit_char (m mod 10) = digit_char (n mod 10)"
        by (simp_all add: str.simps [of m] str.simps [of n])
      have "m div 10 = n div 10" using 1(1) [OF m e(1)] .
      moreover have "m mod 10 = n mod 10" using digit_char_inj [OF _ _ e(2)] by simp
      ultimately show ?thesis by (metis div_mult_mod_eq)
    qed
  qed
qed

lemma range_step_mult: "0 < k \<Longrightarrow> range_step (n * k) k = Inr (map (\<lambda>j. j * k) [0..<n])"
proof -
  assume k: "0 < k"
  then obtain k' where k': "k = Suc k'" by (cases k) auto
  have "(n * k + k - 1) div k = (k' + n * Suc k') div Suc k'" using k' by (simp add: add.commute)
  also have "\<dots> = n" by (simp del: mult_Suc_right)
  finally show ?thesis using k by (simp add: range_step_def)
qed

lemma map_of_write_file: "map_of (write_file p c fs) = (map_of fs)(p \<mapsto> c)"
  by (induction fs) (auto simp: fun_eq_iff)

lemma sep_split:
  "a \<notin> set xs \<Longrightarrow> a \<notin> set ys \<Longrightarrow> xs @ a # r = ys @ a # r' \<Longrightarrow> xs = ys \<and> r = r'"
proof (induction xs arbitrary: ys)
  case Nil
  then show ?case by (cases ys) auto
next
  case (Cons x xs)
  then show ?case by (cases ys) auto
qed

lemma bucket_file_inj: "bucket_file dest k i = bucket_file dest k' i' \<Longrightarrow> k = k' \<and> i = i'"
proof -
  assume "bucket_file dest k i = bucket_file dest k' i'"
  then have "str k @ CHR ''/'' # (str i @ ''.wav'') = str k' @ CHR ''/'' # (str i' @ ''.wav'')"
    by (simp add: bucket_file_def)
  from sep_split [OF _ _ this] have "str k = str k'" "str i = str i'"
    using str_no_sep by auto
  then show ?thesis using str_inj by blast
qed

subsection \<open>Writing the partitions of a bucket\<close>

lemma write_partitions_frame:
  "write_partitions self d i parts w = Inr w' \<Longrightarrow> w' = w\<lparr>wavs := wavs w'\<rparr>"
proof (induction parts arbitrary: i w)
  case Nil
  then show ?case by simp
next
  case (Cons a parts)
  then obtain f where f: "mixture self a = Inr f" by (auto split: sum.splits)
  with Cons.prems have
    "write_partitions self d (Suc i) parts (w\<lparr>wavs := write_file (d @ ''/'' @ str i @ ''.wav'') f (wavs w)\<rparr>) = Inr w'"
    by simp
  from Cons.IH [OF this] show ?case by simp
qed

lemma write_partitions_succeeds:
  "\<forall>part \<in> set parts. part \<noteq> [] \<Longrightarrow> \<exists>w'. write_partitions self d i parts w = Inr w'"
proof (induction parts arbitrary: i w)
  case Nil
  then show ?case by simp
next
  case (Cons a parts)
  then have "a \<noteq> []" by simp
  then obtain longest where "max_by_len a = Inr longest" using max_by_len_nonempty by blast
  from mixture_eq [OF this] obtain f where "mixture self a = Inr f" by blast
  then show ?case using Cons by simp
qed

lemma write_partitions_other:
  "write_partitions self d i parts w = Inr w' \<Longrightarrow>
   (\<forall>j<length parts. p \<noteq> d @ ''/'' @ str (i + j) @ ''.wav'') \<Longrightarrow>
   map_of (wavs w') p = map_of (wavs w) p"
proof (induction parts arbitrary: i w)
  case Nil
  then show ?case by simp
next
  case (Cons a parts)
  then obtain f where f: "mixture self a = Inr f" by (auto split: sum.splits)
  let ?w1 = "w\<lparr>wavs := write_file (d @ ''/'' @ str i @ ''.wav'') f (wavs w)\<rparr>"
  from f Cons.prems(1) have r: "write_partitions self d (Suc i) parts ?w1 = Inr w'" by simp
  have "\<forall>j<length parts. p \<noteq> d @ ''/'' @ str (Suc i + j) @ ''.wav''"
    using Cons.prems(2) by fastforce
  from Cons.IH [OF r this] have "map_of (wavs w') p = map_of (wavs ?w1) p" .
  moreover have "p \<noteq> d @ ''/'' @ str i @ ''.wav''" using Cons.prems(2) by fastforce
  ultimately show ?case by (simp add: map_of_write_file)
qed

lemma write_partitions_written:
  "write_partitions self d i parts w = Inr w' \<Longrightarrow> j < length parts \<Longrightarrow>
   \<exists>f. mixture self (parts ! j) = Inr f \<and>
       map_of (wavs w') (d @ ''/'' @ str (i + j) @ ''.wav'') = Some f"
proof (induction parts arbitrary: i w j)
  case Nil
  then show ?case by simp
next
  case (Cons a parts)
  then obtain f where f: "mixture self a = Inr f" by (auto split: sum.splits)
  let ?w1 = "w\<lparr>wavs := write_file (d @ ''/'' @ str i @ ''.wav'') f (wavs w)\<rparr>"
  from f Cons.prems(1) have r: "write_partitions self d (Suc i) parts ?w1 = Inr w'" by simp
  show ?case
  proof (cases j)
    case 0
    have "\<forall>j<length parts. d @ ''/'' @ str i @ ''.wav'' \<noteq> d @ ''/'' @ str (Suc i + j) @ ''.wav''"
      using str_inj by fastforce
    from write_partitions_other [OF r this]
    have "map_of (wavs w') (d @ ''/'' @ str i @ ''.wav'') = Some f"
      by (simp add: map_of_write_file)
    with 0 f show ?thesis by simp
  next
    case (Suc j')
    with Cons.prems(2) have "j' < length parts" by simp
    from Cons.IH [OF r this] Suc show ?thesis by simp
  qed
qed

subsection \<open>One bucket\<close>

lemma slice_full:
  assumes "0 < k" "n * k \<le> length xs" "j < n"
  shows "length (take k (drop (j * k) xs)) = k"
proof -
  have "Suc j * k \<le> n * k" using assms(3) by (intro mult_le_mono1) simp
  then have "j * k + k \<le> length xs" using assms(2) by simp
  then show ?thesis by simp
qed

lemma div_mult_le_length:
  assumes "k \<le> m"
  shows "(N div m) * k \<le> (N::nat)"
proof -
  have "(N div m) * k \<le> (N div m) * m" using assms by simp
  also have "\<dots> \<le> N" by simp
  finally show ?thesis .
qed

lemma ccs_unfold:
  assumes "0 < k"
  shows "create_concurrent_speakers L self train dest k n shuffle w =
         (case write_partitions self (dest @ ''/'' @ str k) 0
                 (map (\<lambda>j. take k (drop (j * k)
                    (if shuffle then permute (fst (random_shuffle L (py_rng w) (length train))) train else train)))
                    [0..<n])
                 (if shuffle
                  then (mkdir_parents (dest @ ''/'' @ str k) w)\<lparr>py_rng := snd (random_shuffle L (py_rng w) (length train))\<rparr>
                  else mkdir_parents (dest @ ''/'' @ str k) w) of
            Inl e \<Rightarrow> Inl e
          | Inr w3 \<Rightarrow>
              Inr (if shuffle then permute (fst (random_shuffle L (py_rng w) (length train))) train else train, w3))"
  unfolding create_concurrent_speakers_def
  using assms
  by (cases "random_shuffle L (py_rng w) (length train)")
     (auto simp add: range_step_mult random_shuffle_list_def mkdir_parents_def Let_def comp_def
           split: sum.splits)

lemma ccs_Inr:
  assumes "create_concurrent_speakers L self train dest k n shuffle w = Inr (train', w')" "0 < k"
  shows "train' = (if shuffle then permute (fst (random_shuffle L (py_rng w) (length train))) train else train)"
    and "py_rng w' = (if shuffle then snd (random_shuffle L (py_rng w) (length train)) else py_rng w)"
    and "dirs w' = dirs w \<union> set (ancestors [] (dest @ ''/'' @ str k)) \<union> {dest @ ''/'' @ str k}"
    and "src_wavs w' = src_wavs w" and "npys w' = npys w" and "logged w' = logged w"
    and "np_rng w' = np_rng w" and "attrs w' = attrs w"
    and "\<exists>w2. write_partitions self (dest @ ''/'' @ str k) 0
                 (map (\<lambda>j. take k (drop (j * k) train')) [0..<n]) w2 = Inr w' \<and> wavs w2 = wavs w"
proof -
  let ?t = "if shuffle then permute (fst (random_shuffle L (py_rng w) (length train))) train else train"
  let ?w2 = "if shuffle
             then (mkdir_parents (dest @ ''/'' @ str k) w)\<lparr>py_rng := snd (random_shuffle L (py_rng w) (length train))\<rparr>
             else mkdir_parents (dest @ ''/'' @ str k) w"
  from assms(1) have
    wp: "write_partitions self (dest @ ''/'' @ str k) 0 (map (\<lambda>j. take k (drop (j * k) ?t)) [0..<n]) ?w2 = Inr w'"
    and t: "train' = ?t"
    unfolding ccs_unfold [OF assms(2)] by (auto split: sum.splits)
  show "train' = ?t" by (rule t)
  from write_partitions_frame [OF wp] have fr: "w' = ?w2\<lparr>wavs := wavs w'\<rparr>" .
  show "py_rng w' = (if shuffle then snd (random_shuffle L (py_rng w) (length train)) else py_rng w)"
    by (subst fr) (simp add: mkdir_parents_def)
  show "dirs w' = dirs w \<union> set (ancestors [] (dest @ ''/'' @ str k)) \<union> {dest @ ''/'' @ str k}"
    by (subst fr) (simp add: mkdir_parents_def)
  show "src_wavs w' = src_wavs w" by (subst fr) (simp add: mkdir_parents_def)
  show "npys w' = npys w" by (subst fr) (simp add: mkdir_parents_def)
  show "logged w' = logged w" by (subst fr) (simp add: mkdir_parents_def)
  show "np_rng w' = np_rng w" by (subst fr) (simp add: mkdir_parents_def)
  show "attrs w' = attrs w" by (subst fr) (simp add: mkdir_parents_def)
  have "wavs ?w2 = wavs w" by (simp add: mkdir_parents_def)
  with wp t show "\<exists>w2. write_partitions self (dest @ ''/'' @ str k) 0
                 (map (\<lambda>j. take k (drop (j * k) train')) [0..<n]) w2 = Inr w' \<and> wavs w2 = wavs w"
    by blast
qed

lemma ccs_succeeds:
  assumes "0 < k"
    and "n * k \<le> length (if shuffle then permute (fst (random_shuffle L (py_rng w) (length train))) train else train)"
  shows "\<exists>w'. create_concurrent_speakers L self train dest k n shuffle w =
           Inr (if shuffle then permute (fst (random_shuffle L (py_rng w) (length train))) train else train, w')"
proof -
  let ?t = "if shuffle then permute (fst (random_shuffle L (py_rng w) (length train))) train else train"
  have "\<forall>part \<in> set (map (\<lambda>j. take k (drop (j * k) ?t)) [0..<n]). part \<noteq> []"
  proof
    fix part assume "part \<in> set (map (\<lambda>j. take k (drop (j * k) ?t)) [0..<n])"
    then obtain j where j: "j < n" "part = take k (drop (j * k) ?t)" by auto
    from slice_full [OF assms(1) assms(2) j(1)] j(2) assms(1) show "part \<noteq> []" by auto
  qed
  from write_partitions_succeeds [OF this] show ?thesis
    unfolding ccs_unfold [OF assms(1)] by (metis (no_types, lifting) sum.simps(6))
qed

subsection \<open>The loop over the buckets\<close>

lemma gb_succeeds:
  assumes "\<forall>k \<in> set ks. 0 < k \<and> n * k \<le> length data"
    and "shuffle \<longrightarrow> (\<forall>g m. length (fst (random_shuffle L g m)) = m)"
  shows "\<exists>data' w'. generate_buckets L self dest n shuffle ks data w = Inr (data', w')"
  using assms(1)
proof (induction ks arbitrary: data w)
  case Nil
  then show ?case by simp
next
  case (Cons k ks)
  let ?t = "if shuffle then permute (fst (random_shuffle L (py_rng w) (length data))) data else data"
  have len: "length ?t = length data" using assms(2) by (simp add: permute_def)
  have k: "0 < k" "n * k \<le> length ?t" using Cons.prems len by auto
  from ccs_succeeds [OF k] obtain w1 where
    c: "create_concurrent_speakers L self data dest k n shuffle w = Inr (?t, w1)" by blast
  have "\<forall>k \<in> set ks. 0 < k \<and> n * k \<le> length ?t" using Cons.prems len by auto
  from Cons.IH [OF this, of w1] c show ?case by simp
qed

lemma gb_frame:
  assumes "generate_buckets L self dest n shuffle ks data w = Inr (data', w')"
    and "\<forall>k \<in> set ks. 0 < k"
  shows "src_wavs w' = src_wavs w \<and> npys w' = npys w \<and> logged w' = logged w \<and>
         np_rng w' = np_rng w \<and> attrs w' = attrs w \<and> dirs w \<subseteq> dirs w' \<and>
         (\<not> shuffle \<longrightarrow> data' = data \<and> py_rng w' = py_rng w)"
  using assms
proof (induction ks arbitrary: data w)
  case Nil
  then show ?case by simp
next
  case (Cons k ks)
  then obtain d1 w1 where
    c: "create_concurrent_speakers L self data dest k n shuffle w = Inr (d1, w1)"
    and r: "generate_buckets L self dest n shuffle ks d1 w1 = Inr (data', w')"
    by (auto split: sum.splits)
  have k: "0 < k" using Cons.prems(2) by simp
  have ks: "\<forall>k \<in> set ks. 0 < k" using Cons.prems(2) by simp
  note c' = ccs_Inr [OF c k]
  from Cons.IH [OF r ks] c'(1-8) show ?case by auto
qed

lemma gb_length:
  assumes "generate_buckets L self dest n shuffle ks data w = Inr (data', w')"
    and "\<forall>k \<in> set ks. 0 < k"
    and "shuffle \<longrightarrow> (\<forall>g m. length (fst (random_shuffle L g m)) = m)"
  shows "length data' = length data"
  using assms(1,2)
proof (induction ks arbitrary: data w)
  case Nil
  then show ?case by simp
next
  case (Cons k ks)
  then obtain d1 w1 where
    c: "create_concurrent_speakers L self data dest k n shuffle w = Inr (d1, w1)"
    and r: "generate_buckets L self dest n shuffle ks d1 w1 = Inr (data', w')"
    by (auto split: sum.splits)
  have k: "0 < k" using Cons.prems(2) by simp
  have ks: "\<forall>k \<in> set ks. 0 < k" using Cons.prems(2) by simp
  have "length d1 = length data" using ccs_Inr(1) [OF c k] assms(3) by (simp add: permute_def)
  with Cons.IH [OF r ks] show ?case by simp
qed

lemma bucket_file_assoc: "(dest @ ''/'' @ str k) @ ''/'' @ str i @ ''.wav'' = bucket_file dest k i"
  by (simp add: bucket_file_def)

lemma ccs_other:
  assumes "create_concurrent_speakers L self train dest k n shuffle w = Inr (train', w')" "0 < k"
    and "\<forall>i<n. p \<noteq> bucket_file dest k i"
  shows "map_of (wavs w') p = map_of (wavs w) p"
proof -
  from ccs_Inr(9) [OF assms(1,2)] obtain w2 where
    wp: "write_partitions self (dest @ ''/'' @ str k) 0
           (map (\<lambda>j. take k (drop (j * k) train')) [0..<n]) w2 = Inr w'"
    and w2: "wavs w2 = wavs w" by blast
  have "\<forall>j<length (map (\<lambda>j. take k (drop (j * k) train')) [0..<n]).
          p \<noteq> (dest @ ''/'' @ str k) @ ''/'' @ str (0 + j) @ ''.wav''"
    using assms(3) unfolding bucket_file_assoc by simp
  from write_partitions_other [OF wp this] w2 show ?thesis by simp
qed

lemma ccs_written:
  assumes "create_concurrent_speakers L self train dest k n shuffle w = Inr (train', w')" "0 < k"
    and "i < n"
  shows "\<exists>f. mixture self (take k (drop (i * k) train')) = Inr f \<and>
             map_of (wavs w') (bucket_file dest k i) = Some f"
proof -
  from ccs_Inr(9) [OF assms(1,2)] obtain w2 where
    wp: "write_partitions self (dest @ ''/'' @ str k) 0
           (map (\<lambda>j. take k (drop (j * k) train')) [0..<n]) w2 = Inr w'"
    by blast
  have "i < length (map (\<lambda>j. take k (drop (j * k) train')) [0..<n])" using assms(3) by simp
  from write_partitions_written [OF wp this] assms(3) show ?thesis
    unfolding bucket_file_assoc by simp
qed

lemma gb_other:
  assumes "generate_buckets L self dest n shuffle ks data w = Inr (data', w')"
    and "\<forall>k \<in> set ks. 0 < k"
    and "\<forall>k \<in> set ks. \<forall>i<n. p \<noteq> bucket_file dest k i"
  shows "map_of (wavs w') p = map_of (wavs w) p"
  using assms
proof (induction ks arbitrary: data w)
  case Nil
  then show ?case by simp
next
  case (Cons k ks)
  then obtain d1 w1 where
    c: "create_concurrent_speakers L self data dest k n shuffle w = Inr (d1, w1)"
    and r: "generate_buckets L self dest n shuffle ks d1 w1 = Inr (data', w')"
    by (auto split: sum.splits)
  have k: "0 < k" using Cons.prems(2) by simp
  have ks: "\<forall>k \<in> set ks. 0 < k" using Cons.prems(2) by simp
  have 1: "map_of (wavs w1) p = map_of (wavs w) p"
    using ccs_other [OF c k] Cons.prems(3) by simp
  have "\<forall>k \<in> set ks. \<forall>i<n. p \<noteq> bucket_file dest k i" using Cons.prems(3) by simp
  from Cons.IH [OF r ks this] 1 show ?case by simp
qed

lemma gb_written:
  assumes "generate_buckets L self dest n shuffle ks data w = Inr (data', w')"
    and "\<forall>k \<in> set ks. 0 < k \<and> n * k \<le> length data"
    and "shuffle \<longrightarrow> (\<forall>g m. length (fst (random_shuffle L g m)) = m)"
    and "k \<in> set ks" and "i < n"
  shows "\<exists>f part. map_of (wavs w') (bucket_file dest k i) = Some f \<and>
                  mixture self part = Inr f \<and> length part = k"
  using assms(1,2,4)
proof (induction ks arbitrary: data w)
  case Nil
  then show ?case by simp
next
  case (Cons k' ks)
  then obtain d1 w1 where
    c: "create_concurrent_speakers L self data dest k' n shuffle w = Inr (d1, w1)"
    and r: "generate_buckets L self dest n shuffle ks d1 w1 = Inr (data', w')"
    by (auto split: sum.splits)
  have k': "0 < k'" using Cons.prems(2) by simp
  have len: "length d1 = length data" using ccs_Inr(1) [OF c k'] assms(3) by (simp add: permute_def)
  have ks: "\<forall>k \<in> set ks. 0 < k \<and> n * k \<le> length d1" using Cons.prems(2) len by simp
  show ?case
  proof (cases "k \<in> set ks")
    case True
    from Cons.IH [OF r ks True] show ?thesis .
  next
    case False
    with Cons.prems(3) have e: "k' = k" by simp
    from ccs_written [OF c k' assms(5)] obtain f where
      f: "mixture self (take k (drop (i * k) d1)) = Inr f"
         "map_of (wavs w1) (bucket_file dest k i) = Some f" using e by auto
    have "n * k \<le> length d1" using Cons.prems(2) len e by simp
    from slice_full [OF _ this assms(5)] k' e
    have l: "length (take k (drop (i * k) d1)) = k" by simp
    have "\<forall>k'' \<in> set ks. \<forall>i'<n. bucket_file dest k i \<noteq> bucket_file dest k'' i'"
      using False bucket_file_inj by blast
    from gb_other [OF r _ this] ks f(2)
    have "map_of (wavs w') (bucket_file dest k i) = Some f" by simp
    with f(1) l show ?thesis by blast
  qed
qed

subsection \<open>One split\<close>

lemma in_range: "k \<in> set [a..<b + 1] \<longleftrightarrow> a \<le> k \<and> k \<le> b"
  by (simp only: set_upt atLeastLessThan_iff) arith

lemma draws_orders_length: "draws_orders L \<Longrightarrow> shuffle \<longrightarrow> (\<forall>g m. length (fst (random_shuffle L g m)) = m)"
  by (simp add: draws_orders_def is_order_def)

lemma read_all:
  "set ps \<subseteq> fst ` set store \<Longrightarrow> \<exists>data. mapE (read_file store) ps = Inr data"
proof (induction ps)
  case Nil
  then show ?case by simp
next
  case (Cons p ps)
  then have "map_of store p \<noteq> None" by (simp add: map_of_eq_None_iff)
  then obtain c where "read_file store p = Inr c" by (auto simp: read_file_def)
  with Cons show ?case by auto
qed

lemma read_globbed: "\<exists>data. mapE (read_file store) (glob store dir ext) = Inr data"
  by (rule read_all) (auto simp: glob_def)

lemma generate_split_unfold:
  assumes "0 < max_speakers self"
  shows "\<exists>data. length data = length (glob (src_wavs w) src ''.WAV'') \<and>
           mapE (read_file (src_wavs w)) (glob (src_wavs w) src ''.WAV'') = Inr data \<and>
           generate_split L self (src, dest, shuffle) w =
             (case generate_buckets L self dest
                     (length (glob (src_wavs w) src ''.WAV'') div max_speakers self) shuffle
                     [min_speakers self..<max_speakers self + 1] data w of
                Inl e \<Rightarrow> Inl e
              | Inr (data', w') \<Rightarrow> Inr w')"
proof -
  obtain data where d: "mapE (read_file (src_wavs w)) (glob (src_wavs w) src ''.WAV'') = Inr data"
    using read_globbed by blast
  from mapE_Inr_length [OF d] d assms show ?thesis
    by (simp add: generate_split_def Let_def)
qed

lemma gb_zero:
  assumes "generate_buckets L self dest 0 shuffle ks data w = Inr (data', w')"
    and "\<forall>k \<in> set ks. 0 < k"
  shows "wavs w' = wavs w"
  using assms
proof (induction ks arbitrary: data w)
  case Nil
  then show ?case by simp
next
  case (Cons k ks)
  then obtain d1 w1 where
    c: "create_concurrent_speakers L self data dest k 0 shuffle w = Inr (d1, w1)"
    and r: "generate_buckets L self dest 0 shuffle ks d1 w1 = Inr (data', w')"
    by (auto split: sum.splits)
  have k: "0 < k" using Cons.prems(2) by simp
  have ks: "\<forall>k \<in> set ks. 0 < k" using Cons.prems(2) by simp
  from ccs_Inr(9) [OF c k] have "wavs w1 = wavs w" by auto
  with Cons.IH [OF r ks] show ?case by simp
qed

lemma mixture_channels: "mixture self part = Inr f \<Longrightarrow> channels f = length part"
proof -
  assume m: "mixture self part = Inr f"
  then obtain longest where "max_by_len part = Inr longest"
    by (auto simp: mixture_def split: sum.splits)
  from mixture_eq [OF this, of self] m show ?thesis by auto
qed

lemma bucket_files_card: "card (bucket_file dest k ` {..<n}) = n"
proof -
  have "inj_on (bucket_file dest k) {..<n}" using bucket_file_inj by (auto simp: inj_on_def)
  then show ?thesis by (simp add: card_image)
qed

subsection \<open>The concrete generators\<close>

lemma is_order_rotate: "is_order n (rotate1 [0..<n])"
  by (auto simp: is_order_def)

lemma is_order_rev: "is_order n (rev [0..<n])"
  by (auto simp: is_order_def)

lemma draws_orders_rotating_lib: "draws_orders rotating_lib"
  by (simp add: draws_orders_def rotating_lib_def is_order_rotate is_order_rev)

lemma glob_world21:
  "length (glob (src_wavs world21) ''src/train'' ''.WAV'') = 21"
  by (simp add: world21_def glob_def glob_match_def)

subsection \<open>Number of files per bucket\<close>

text \<open>
  C4. For a split whose source directory yields \<open>N\<close> recordings, the generation pass
  over the split returns without an error and produces exactly \<open>N // max_speakers\<close>
  files in every bucket \<open>k\<close> of \<open>[min_speakers, max_speakers]\<close>: after the pass the
  files with index below \<open>N // max_speakers\<close> exist in each bucket (each with \<open>k\<close>
  channels), their names are pairwise different, and no other path has changed. When
  \<open>N < max_speakers\<close> the pass writes no file at all. The speaker counts are positive,
  as in the class (2 to 20), and a requested shuffle draws a permutation.
\<close>

theorem generation_count:
  assumes "0 < min_speakers self" and "0 < max_speakers self"
    and "shuffle \<longrightarrow> draws_orders L"
    and "N = length (glob (src_wavs w) src ''.WAV'')"
  shows "\<exists>w'. generate_split L self (src, dest, shuffle) w = Inr w' \<and>
           (\<forall>k i. min_speakers self \<le> k \<and> k \<le> max_speakers self \<and> i < N div max_speakers self \<longrightarrow>
                  (\<exists>f. map_of (wavs w') (bucket_file dest k i) = Some f \<and> channels f = k)) \<and>
           (\<forall>p. (\<forall>k i. min_speakers self \<le> k \<and> k \<le> max_speakers self \<and> i < N div max_speakers self \<longrightarrow>
                        p \<noteq> bucket_file dest k i) \<longrightarrow>
                map_of (wavs w') p = map_of (wavs w) p) \<and>
           (\<forall>k. card (bucket_file dest k ` {..<N div max_speakers self}) = N div max_speakers self) \<and>
           (N < max_speakers self \<longrightarrow> wavs w' = wavs w)"
proof -
  let ?n = "N div max_speakers self"
  let ?ks = "[min_speakers self..<max_speakers self + 1]"
  from generate_split_unfold [OF assms(2), of w src L dest shuffle] obtain data where
    len: "length data = N"
    and gs: "generate_split L self (src, dest, shuffle) w =
              (case generate_buckets L self dest ?n shuffle ?ks data w of
                 Inl e \<Rightarrow> Inl e | Inr (data', w') \<Rightarrow> Inr w')"
    using assms(4) by auto
  have lp: "shuffle \<longrightarrow> (\<forall>g m. length (fst (random_shuffle L g m)) = m)"
    using assms(3) draws_orders_length by blast
  have ks: "\<forall>k \<in> set ?ks. 0 < k \<and> ?n * k \<le> length data"
  proof
    fix k assume "k \<in> set ?ks"
    then have "min_speakers self \<le> k" "k \<le> max_speakers self" using in_range by blast+
    with assms(1) len div_mult_le_length [of k "max_speakers self" N]
    show "0 < k \<and> ?n * k \<le> length data" by simp
  qed
  then have ks0: "\<forall>k \<in> set ?ks. 0 < k" by blast
  from gb_succeeds [OF ks lp] obtain data' w' where
    gb: "generate_buckets L self dest ?n shuffle ?ks data w = Inr (data', w')" by blast
  have 1: "generate_split L self (src, dest, shuffle) w = Inr w'" using gs gb by simp
  have 2: "\<exists>f. map_of (wavs w') (bucket_file dest k i) = Some f \<and> channels f = k"
    if "min_speakers self \<le> k \<and> k \<le> max_speakers self \<and> i < ?n" for k i
  proof -
    from that have "k \<in> set ?ks" "i < ?n" using in_range by blast+
    from gb_written [OF gb ks lp this] mixture_channels show ?thesis by blast
  qed
  have 3: "map_of (wavs w') p = map_of (wavs w) p"
    if "\<forall>k i. min_speakers self \<le> k \<and> k \<le> max_speakers self \<and> i < ?n \<longrightarrow> p \<noteq> bucket_file dest k i" for p
  proof -
    from that have "\<forall>k \<in> set ?ks. \<forall>i<?n. p \<noteq> bucket_file dest k i"
      using in_range by blast
    from gb_other [OF gb ks0 this] show ?thesis .
  qed
  have 4: "wavs w' = wavs w" if "N < max_speakers self"
  proof -
    from that have "?n = 0" by simp
    with gb gb_zero [OF _ ks0] show ?thesis by metis
  qed
  from 1 2 3 4 bucket_files_card show ?thesis by blast
qed


lemma glob_world21_test:
  "length (glob (src_wavs world21) ''src/test'' ''.WAV'') = 1"
  by (simp add: world21_def glob_def glob_match_def)

theorem generation_count_witness:
  "0 < min_speakers loader0 \<and> 0 < max_speakers loader0 \<and> draws_orders rotating_lib \<and>
   21 = length (glob (src_wavs world21) ''src/train'' ''.WAV'') \<and>
   (\<exists>w'. generate_split rotating_lib loader0 (''src/train'', ''gen/train'', True) world21 = Inr w' \<and>
      (\<exists>f. map_of (wavs w') ''gen/train/7/0.wav'' = Some f \<and> channels f = 7) \<and>
      card (bucket_file ''gen/train'' 7 ` {..<1}) = 1) \<and>
   1 = length (glob (src_wavs world21) ''src/test'' ''.WAV'') \<and>
   1 < max_speakers loader0 \<and>
   (\<exists>w'. generate_split rotating_lib loader0 (''src/test'', ''gen/test'', False) world21 = Inr w' \<and>
      wavs w' = wavs world21)"
proof -
  have h1: "0 < min_speakers loader0" and h2: "0 < max_speakers loader0"
    by (simp_all add: loader0_def dataloader_init_def)
  have h3: "True \<longrightarrow> draws_orders rotating_lib" using draws_orders_rotating_lib by simp
  have h4: "21 = length (glob (src_wavs world21) ''src/train'' ''.WAV'')"
    using glob_world21 by simp
  have m: "max_speakers loader0 = 20" "min_speakers loader0 = 2"
    by (simp_all add: loader0_def dataloader_init_def)
  have b: "bucket_file ''gen/train'' 7 0 = ''gen/train/7/0.wav''"
    by (simp add: bucket_file_def str.simps digit_char_def)
  from generation_count [OF h1 h2 h3 h4, where dest = "''gen/train''"] obtain w' where
    w': "generate_split rotating_lib loader0 (''src/train'', ''gen/train'', True) world21 = Inr w'"
      "\<forall>k i. min_speakers loader0 \<le> k \<and> k \<le> max_speakers loader0 \<and> i < 21 div max_speakers loader0 \<longrightarrow>
          (\<exists>f. map_of (wavs w') (bucket_file ''gen/train'' k i) = Some f \<and> channels f = k)"
      "\<forall>k. card (bucket_file ''gen/train'' k ` {..<21 div max_speakers loader0}) = 21 div max_speakers loader0"
    by blast
  from w'(2) [rule_format, of 7 0] have "\<exists>f. map_of (wavs w') ''gen/train/7/0.wav'' = Some f \<and> channels f = 7"
    unfolding m b by simp
  moreover from w'(3) [rule_format, of 7] have "card (bucket_file ''gen/train'' 7 ` {..<1}) = 1"
    unfolding m by simp
  ultimately have train:
    "\<exists>w'. generate_split rotating_lib loader0 (''src/train'', ''gen/train'', True) world21 = Inr w' \<and>
      (\<exists>f. map_of (wavs w') ''gen/train/7/0.wav'' = Some f \<and> channels f = 7) \<and>
      card (bucket_file ''gen/train'' 7 ` {..<1}) = 1"
    using w'(1) by blast
  have h3': "False \<longrightarrow> draws_orders rotating_lib" by simp
  have h4': "1 = length (glob (src_wavs world21) ''src/test'' ''.WAV'')"
    using glob_world21_test by simp
  have lt: "1 < max_speakers loader0" by (simp add: m)
  from generation_count [OF h1 h2 h3' h4', where dest = "''gen/test''"] lt
  have test: "\<exists>w'. generate_split rotating_lib loader0 (''src/test'', ''gen/test'', False) world21 = Inr w' \<and>
      wavs w' = wavs world21"
    by blast
  from h1 h2 draws_orders_rotating_lib h4 train h4' lt test show ?thesis by (intro conjI)
qed

subsection \<open>Shape of a mixture file\<close>

lemma max_by_len_Max:
  assumes "max_by_len part = Inr longest"
  shows "length longest = Max (length ` set part)"
proof -
  have "Max (length ` set part) = length longest"
  proof (rule Max_eqI)
    show "finite (length ` set part)" by simp
    show "length longest \<in> length ` set part" using max_by_len_Inr(1) [OF assms] by simp
    fix y assume "y \<in> length ` set part"
    then show "y \<le> length longest" using max_by_len_Inr(2) [OF assms] by auto
  qed
  then show ?thesis by simp
qed

lemma mixture_shape:
  assumes "mixture self part = Inr f"
  shows "rate f = sampled_at self"
    and "channels f = length part"
    and "\<forall>fr \<in> set (frames f). length fr = length part"
    and "length (frames f) = Max (length ` set part)"
    and "\<forall>c<length part.
           channel f c = part ! c @ replicate (Max (length ` set part) - length (part ! c)) 0"
proof -
  from assms obtain longest where m: "max_by_len part = Inr longest"
    by (auto simp: mixture_def split: sum.splits)
  let ?L = "length longest"
  from mixture_eq [OF m, of self] assms have
    f: "f = \<lparr>rate = sampled_at self, channels = length part,
             frames = map (\<lambda>j. map (\<lambda>x. (x @ replicate (?L - length x) 0) ! j) part) [0..<?L]\<rparr>"
    by simp
  note L = max_by_len_Max [OF m]
  show "rate f = sampled_at self" by (simp add: f)
  show "channels f = length part" by (simp add: f)
  show "\<forall>fr \<in> set (frames f). length fr = length part" by (auto simp: f)
  show "length (frames f) = Max (length ` set part)" using L by (simp add: f)
  show "\<forall>c<length part.
           channel f c = part ! c @ replicate (Max (length ` set part) - length (part ! c)) 0"
  proof (intro allI impI)
    fix c assume c: "c < length part"
    let ?p = "part ! c @ replicate (?L - length (part ! c)) 0"
    have "length (part ! c) \<le> ?L" using max_by_len_Inr(2) [OF m] c by simp
    then have len: "length ?p = ?L" by simp
    have "channel f c = map (\<lambda>j. ?p ! j) [0..<?L]"
      using c by (simp add: channel_def f comp_def)
    also have "\<dots> = ?p" using len map_nth [of ?p] by simp
    finally show "channel f c = part ! c @ replicate (Max (length ` set part) - length (part ! c)) 0"
      using L by simp
  qed
qed

text \<open>One call of \<open>__create_concurrent_speakers\<close>, evaluated.\<close>

lemma ccs_example:
  "create_concurrent_speakers rotating_lib loader0 [[1, 2, 3], [4], [5, 6], [7]] ''gen/train'' 2 1
     True world21 =
   Inr ([[4], [5, 6], [7], [1, 2, 3]], world21_bucket2)"
  apply (simp add: create_concurrent_speakers_def range_step_def mkdir_parents_def str.simps digit_char_def
     mixture_def np_pad_def np_array_def Let_def loader0_def dataloader_init_def
     random_shuffle_list_def rotating_lib_def permute_def world21_bucket2_def)
  apply (simp add: world21_def)
  apply auto
  done

subsection \<open>The sequence each bucket is partitioned from\<close>

lemma reshuffled_no_shuffle: "reshuffled L False g d j = (d, g)"
  by (induction j) auto

lemma reshuffled_length:
  "shuffle \<longrightarrow> (\<forall>g m. length (fst (random_shuffle L g m)) = m) \<Longrightarrow>
   length (fst (reshuffled L shuffle g d j)) = length d"
proof (induction j arbitrary: g d)
  case 0
  then show ?case by simp
next
  case (Suc j)
  show ?case
  proof (cases shuffle)
    case True
    obtain order g' where r: "random_shuffle L g (length d) = (order, g')" by fastforce
    have "length order = length d" using Suc.prems True r by (metis fst_conv)
    then have "length (permute order d) = length d" by (simp add: permute_def)
    with Suc.IH [OF Suc.prems, of g' "permute order d"] True r show ?thesis by simp
  next
    case False
    with Suc show ?thesis by simp
  qed
qed

lemma ccs_reshuffled:
  assumes "create_concurrent_speakers L self data dest k n shuffle w = Inr (d1, w1)" "0 < k"
  shows "reshuffled L shuffle (py_rng w) data (Suc j) = reshuffled L shuffle (py_rng w1) d1 j"
proof (cases shuffle)
  case True
  obtain order g' where r: "random_shuffle L (py_rng w) (length data) = (order, g')" by fastforce
  from ccs_Inr(1,2) [OF assms] True r have "d1 = permute order data" "py_rng w1 = g'" by simp_all
  with True r show ?thesis by simp
next
  case False
  from ccs_Inr(1,2) [OF assms] False show ?thesis by simp
qed

lemma gb_bases:
  assumes "generate_buckets L self dest n shuffle ks data w = Inr (data', w')"
    and "\<forall>k \<in> set ks. 0 < k"
    and "distinct ks"
  shows "(data', py_rng w') = reshuffled L shuffle (py_rng w) data (length ks)"
    and "j < length ks \<Longrightarrow> i < n \<Longrightarrow>
         \<exists>f. mixture self (take (ks ! j) (drop (i * (ks ! j))
                  (fst (reshuffled L shuffle (py_rng w) data (Suc j))))) = Inr f \<and>
             wav_at (bucket_file dest (ks ! j) i) w' = Some f"
  using assms
proof (induction ks arbitrary: data w j)
  case Nil
  { case 1 then show ?case by simp }
  { case 2 then show ?case by simp }
next
  case (Cons k ks)
  { case 1
    then obtain d1 w1 where
      c: "create_concurrent_speakers L self data dest k n shuffle w = Inr (d1, w1)"
      and r: "generate_buckets L self dest n shuffle ks d1 w1 = Inr (data', w')"
      by (auto split: sum.splits)
    have k: "0 < k" using 1(2) by simp
    have ks: "\<forall>k \<in> set ks. 0 < k" "distinct ks" using 1(2,3) by simp_all
    from Cons.IH(1) [OF r ks] ccs_reshuffled [OF c k, of "length ks"] show ?case by simp }
  { case 2
    then obtain d1 w1 where
      c: "create_concurrent_speakers L self data dest k n shuffle w = Inr (d1, w1)"
      and r: "generate_buckets L self dest n shuffle ks d1 w1 = Inr (data', w')"
      by (auto split: sum.splits)
    have k: "0 < k" using 2(4) by simp
    have ks: "\<forall>k \<in> set ks. 0 < k" "distinct ks" using 2(4,5) by simp_all
    show ?case
    proof (cases j)
      case 0
      have d1: "d1 = fst (reshuffled L shuffle (py_rng w) data (Suc 0))"
        using ccs_reshuffled [OF c k, of 0] by simp
      from ccs_written [OF c k 2(2)] obtain f where
        f: "mixture self (take k (drop (i * k) d1)) = Inr f"
           "map_of (wavs w1) (bucket_file dest k i) = Some f" by blast
      have "k \<notin> set ks" using 2(5) by simp
      then have "\<forall>k' \<in> set ks. \<forall>i'<n. bucket_file dest k i \<noteq> bucket_file dest k' i'"
        using bucket_file_inj by blast
      from gb_other [OF r ks(1) this] f(2)
      have "wav_at (bucket_file dest k i) w' = Some f" by (simp add: wav_at_def)
      with f(1) d1 0 show ?thesis by simp
    next
      case (Suc j')
      with 2(1) have j': "j' < length ks" by simp
      from Cons.IH(2) [OF j' 2(2) r ks] ccs_reshuffled [OF c k, of "Suc j'"] Suc
      show ?thesis by simp
    qed }
qed

lemma permute_set: "is_order (length xs) order \<Longrightarrow> set (permute order xs) = set xs"
proof -
  assume o: "is_order (length xs) order"
  have "set (permute order xs) = (\<lambda>i. xs ! i) ` {..<length xs}"
    using o by (simp add: permute_def is_order_def)
  also have "\<dots> = set xs" by (auto simp: set_conv_nth)
  finally show ?thesis .
qed

lemma reshuffled_set:
  "shuffle \<longrightarrow> draws_orders L \<Longrightarrow> set (fst (reshuffled L shuffle g d j)) = set d"
proof (induction j arbitrary: g d)
  case 0
  then show ?case by simp
next
  case (Suc j)
  show ?case
  proof (cases shuffle)
    case True
    obtain order g' where r: "random_shuffle L g (length d) = (order, g')" by fastforce
    have "is_order (length d) order" using Suc.prems True r
      by (metis draws_orders_def fst_conv)
    then have "set (permute order d) = set d" by (rule permute_set)
    with Suc.IH [OF Suc.prems, of g' "permute order d"] True r show ?thesis by simp
  next
    case False
    with Suc show ?thesis by simp
  qed
qed

subsection \<open>One split, bucket by bucket\<close>

lemma upt_nth_range: "min_s + j \<le> max_s \<Longrightarrow> [min_s..<max_s + 1] ! j = min_s + j"
  using nth_upt [of min_s j "max_s + 1"] by (simp del: upt_Suc)

lemma upt_length_range: "min_s + j \<le> max_s \<Longrightarrow> j < length [min_s..<max_s + 1]"
  by (simp del: upt_Suc)

lemma generate_split_bases:
  assumes "0 < min_speakers self" and "0 < max_speakers self"
    and "shuffle \<longrightarrow> (\<forall>g m. length (fst (random_shuffle L g m)) = m)"
    and "mapE (read_file (src_wavs w)) (glob (src_wavs w) src ''.WAV'') = Inr data"
  shows "\<exists>w'. generate_split L self (src, dest, shuffle) w = Inr w' \<and>
           py_rng w' = snd (reshuffled L shuffle (py_rng w) data
                              (max_speakers self + 1 - min_speakers self)) \<and>
           (\<forall>j i. min_speakers self + j \<le> max_speakers self \<and>
                  i < length data div max_speakers self \<longrightarrow>
                  (\<exists>f. mixture self
                         (take (min_speakers self + j)
                            (drop (i * (min_speakers self + j))
                               (fst (reshuffled L shuffle (py_rng w) data (Suc j))))) = Inr f \<and>
                       wav_at (bucket_file dest (min_speakers self + j) i) w' = Some f))"
proof -
  let ?n = "length data div max_speakers self"
  let ?ks = "[min_speakers self..<max_speakers self + 1]"
  have len: "length data = length (glob (src_wavs w) src ''.WAV'')"
    using mapE_Inr_length [OF assms(4)] .
  have gs: "generate_split L self (src, dest, shuffle) w =
              (case generate_buckets L self dest ?n shuffle ?ks data w of
                 Inl e \<Rightarrow> Inl e | Inr (data', w') \<Rightarrow> Inr w')"
    using assms(2,4) len by (simp add: generate_split_def Let_def)
  have ks: "\<forall>k \<in> set ?ks. 0 < k \<and> ?n * k \<le> length data"
  proof
    fix k assume "k \<in> set ?ks"
    then have "min_speakers self \<le> k" "k \<le> max_speakers self" using in_range by blast+
    with assms(1) div_mult_le_length [of k "max_speakers self" "length data"]
    show "0 < k \<and> ?n * k \<le> length data" by simp
  qed
  then have ks0: "\<forall>k \<in> set ?ks. 0 < k" by blast
  from gb_succeeds [OF ks assms(3)] obtain data' w' where
    gb: "generate_buckets L self dest ?n shuffle ?ks data w = Inr (data', w')" by blast
  have 1: "generate_split L self (src, dest, shuffle) w = Inr w'" using gs gb by simp
  have "(data', py_rng w') = reshuffled L shuffle (py_rng w) data (length ?ks)"
    using gb_bases(1) [OF gb ks0] by simp
  then have 2: "py_rng w' = snd (reshuffled L shuffle (py_rng w) data
                                   (max_speakers self + 1 - min_speakers self))"
    by (metis length_upt snd_conv)
  have 3: "\<exists>f. mixture self
                 (take (min_speakers self + j)
                    (drop (i * (min_speakers self + j))
                       (fst (reshuffled L shuffle (py_rng w) data (Suc j))))) = Inr f \<and>
               wav_at (bucket_file dest (min_speakers self + j) i) w' = Some f"
    if "min_speakers self + j \<le> max_speakers self \<and> i < ?n" for j i
  proof -
    from that have j: "j < length ?ks" and i: "i < ?n" using upt_length_range by blast+
    have n: "?ks ! j = min_speakers self + j" using that upt_nth_range by blast
    from gb_bases(2) [OF gb ks0 _ j i] show ?thesis unfolding n by simp
  qed
  from 1 2 3 show ?thesis by blast
qed

lemma reshuffled_rotating_state: "snd (reshuffled rotating_lib True g d j) = g + j"
  by (induction j arbitrary: g d) (auto simp: rotating_lib_def)

lemma read_world21:
  "mapE (read_file (src_wavs world21)) (glob (src_wavs world21) ''src/train'' ''.WAV'') =
   Inr recordings21"
  by (simp add: world21_def glob_def glob_match_def read_file_def recordings21_def)



lemma rotating_once:
  "take 2 (fst (reshuffled rotating_lib True 0 recordings21 (Suc 0))) = [[2, - 2], [3, - 3]]"
  by (simp add: rotating_lib_def permute_def recordings21_def)

lemma rotating_twice:
  "take 3 (fst (reshuffled rotating_lib True 0 recordings21 (Suc (Suc 0)))) =
   [[3, - 3], [4], [5, - 5]]"
  by (simp add: rotating_lib_def permute_def recordings21_def)

lemma mixture_of_two:
  "mixture loader0 [[2, - 2], [3, - 3]] =
   Inr \<lparr>rate = 16000, channels = 2, frames = [[2, 3], [- 2, - 3]]\<rparr>"
  by (simp add: mixture_def np_pad_def np_array_def loader0_def dataloader_init_def)

lemma mixture_of_three:
  "mixture loader0 [[3, - 3], [4], [5, - 5]] =
   Inr \<lparr>rate = 16000, channels = 3, frames = [[3, 4, 5], [- 3, 0, - 5]]\<rparr>"
  by (simp add: mixture_def np_pad_def np_array_def loader0_def dataloader_init_def)

lemma loader0_fields:
  "min_speakers loader0 = 2" "max_speakers loader0 = 20" "py_rng world21 = 0"
  "length recordings21 = 21"
  by (simp_all add: loader0_def dataloader_init_def world21_def recordings21_def)

lemma bucket_file_examples:
  "bucket_file ''gen/train'' 2 0 = ''gen/train/2/0.wav''"
  "bucket_file ''gen/train'' 3 0 = ''gen/train/3/0.wav''"
  "bucket_file ''gen/test'' 2 0 = ''gen/test/2/0.wav''"
  by (simp_all add: bucket_file_def str.simps digit_char_def)

lemma world21_train_pass:
  "\<exists>w'. generate_split rotating_lib loader0 (''src/train'', ''gen/train'', True) world21 = Inr w' \<and>
        py_rng w' = 19 \<and>
        wav_at ''gen/train/2/0.wav'' w' =
          Some \<lparr>rate = 16000, channels = 2, frames = [[2, 3], [- 2, - 3]]\<rparr> \<and>
        wav_at ''gen/train/3/0.wav'' w' =
          Some \<lparr>rate = 16000, channels = 3, frames = [[3, 4, 5], [- 3, 0, - 5]]\<rparr>"
proof -
  have h1: "0 < min_speakers loader0" and h2: "0 < max_speakers loader0"
    by (simp_all add: loader0_fields)
  from generate_split_bases [OF h1 h2 draws_orders_length [OF draws_orders_rotating_lib] read_world21,
      where dest = "''gen/train''" and shuffle = True]
  obtain w' where
    gs: "generate_split rotating_lib loader0 (''src/train'', ''gen/train'', True) world21 = Inr w'"
    and rng: "py_rng w' = snd (reshuffled rotating_lib True 0 recordings21 19)"
    and files: "\<And>j i. 2 + j \<le> 20 \<Longrightarrow> i < 1 \<Longrightarrow>
       \<exists>f. mixture loader0 (take (2 + j) (drop (i * (2 + j))
               (fst (reshuffled rotating_lib True 0 recordings21 (Suc j))))) = Inr f \<and>
           wav_at (bucket_file ''gen/train'' (2 + j) i) w' = Some f"
    unfolding loader0_fields by auto
  have "py_rng w' = 19" using rng by (simp add: reshuffled_rotating_state)
  moreover from files [of 0 0] have "wav_at ''gen/train/2/0.wav'' w' =
          Some \<lparr>rate = 16000, channels = 2, frames = [[2, 3], [- 2, - 3]]\<rparr>"
    by (simp del: reshuffled.simps add: rotating_once mixture_of_two bucket_file_examples)
  moreover from files [of 1 0] have "wav_at ''gen/train/3/0.wav'' w' =
          Some \<lparr>rate = 16000, channels = 3, frames = [[3, 4, 5], [- 3, 0, - 5]]\<rparr>"
    by (simp del: reshuffled.simps add: rotating_twice mixture_of_three bucket_file_examples)
  ultimately show ?thesis using gs by blast
qed

subsection \<open>The files of a pass\<close>

text \<open>
  C5. Every partition written with target speaker count \<open>k\<close> has \<open>k\<close> members,
  recordings of the split's source, and the file persisted for it has exactly \<open>k\<close>
  channels; all channels have the same length, the largest length among the \<open>k\<close>
  recordings of the partition, and each channel is its recording followed by zeros.
  This holds of every file of every bucket of a generation pass over a split; the
  partition is the slice of the sequence the bucket is built from.
\<close>

theorem mixture_file_shape:
  assumes "0 < min_speakers self" and "0 < max_speakers self"
    and "shuffle \<longrightarrow> draws_orders L"
    and "mapE (read_file (src_wavs w)) (glob (src_wavs w) src ''.WAV'') = Inr data"
  shows "\<exists>w'. generate_split L self (src, dest, shuffle) w = Inr w' \<and>
           (\<forall>j i. min_speakers self + j \<le> max_speakers self \<and>
                  i < length data div max_speakers self \<longrightarrow>
              (\<exists>f part k.
                 k = min_speakers self + j \<and>
                 part = take k (drop (i * k) (fst (reshuffled L shuffle (py_rng w) data (Suc j)))) \<and>
                 length part = k \<and> set part \<subseteq> set data \<and>
                 wav_at (bucket_file dest k i) w' = Some f \<and>
                 channels f = k \<and>
                 (\<forall>fr \<in> set (frames f). length fr = k) \<and>
                 (\<forall>c<k. length (channel f c) = Max (length ` set part)) \<and>
                 (\<forall>c<k. channel f c =
                    part ! c @ replicate (Max (length ` set part) - length (part ! c)) 0)))"
proof -
  let ?n = "length data div max_speakers self"
  have lp: "shuffle \<longrightarrow> (\<forall>g m. length (fst (random_shuffle L g m)) = m)"
    using assms(3) draws_orders_length by blast
  from generate_split_bases [OF assms(1,2) lp assms(4), where dest = dest]
  obtain w' where
    gs: "generate_split L self (src, dest, shuffle) w = Inr w'"
    and files: "\<And>j i. min_speakers self + j \<le> max_speakers self \<Longrightarrow> i < ?n \<Longrightarrow>
       \<exists>f. mixture self
              (take (min_speakers self + j)
                 (drop (i * (min_speakers self + j))
                    (fst (reshuffled L shuffle (py_rng w) data (Suc j))))) = Inr f \<and>
           wav_at (bucket_file dest (min_speakers self + j) i) w' = Some f"
    by blast
  have "\<exists>f part k.
          k = min_speakers self + j \<and>
          part = take k (drop (i * k) (fst (reshuffled L shuffle (py_rng w) data (Suc j)))) \<and>
          length part = k \<and> set part \<subseteq> set data \<and>
          wav_at (bucket_file dest k i) w' = Some f \<and>
          channels f = k \<and>
          (\<forall>fr \<in> set (frames f). length fr = k) \<and>
          (\<forall>c<k. length (channel f c) = Max (length ` set part)) \<and>
          (\<forall>c<k. channel f c = part ! c @ replicate (Max (length ` set part) - length (part ! c)) 0)"
    if ji: "min_speakers self + j \<le> max_speakers self \<and> i < ?n" for j i
  proof -
    let ?k = "min_speakers self + j"
    let ?base = "fst (reshuffled L shuffle (py_rng w) data (Suc j))"
    let ?part = "take ?k (drop (i * ?k) ?base)"
    from files [of j i] ji obtain f where
      f: "mixture self ?part = Inr f" "wav_at (bucket_file dest ?k i) w' = Some f" by blast
    have k: "0 < ?k" using assms(1) by simp
    have "length ?base = length data" using reshuffled_length [OF lp] .
    then have "?n * ?k \<le> length ?base"
      using div_mult_le_length [of ?k "max_speakers self" "length data"] ji by simp
    from slice_full [OF k this] ji have l: "length ?part = ?k" by blast
    have "set ?part \<subseteq> set ?base" by (meson set_drop_subset set_take_subset subset_trans)
    moreover have "set ?base = set data" by (rule reshuffled_set [OF assms(3)])
    ultimately have sub: "set ?part \<subseteq> set data" by (simp only:)
    note sh = mixture_shape [OF f(1)]
    have "\<forall>c<?k. length (channel f c) = Max (length ` set ?part)"
      using sh(4) by (simp add: channel_def)
    with f(2) l sub sh(2,3,5) show ?thesis by (metis (no_types, lifting))
  qed
  with gs show ?thesis by blast
qed

theorem mixture_file_shape_witness:
  "0 < min_speakers loader0 \<and> 0 < max_speakers loader0 \<and> draws_orders rotating_lib \<and>
   mapE (read_file (src_wavs world21)) (glob (src_wavs world21) ''src/train'' ''.WAV'') =
     Inr recordings21 \<and>
   (\<exists>w' f. generate_split rotating_lib loader0 (''src/train'', ''gen/train'', True) world21 = Inr w' \<and>
      wav_at ''gen/train/3/0.wav'' w' = Some f \<and> channels f = 3 \<and>
      channel f 0 = [3, - 3] \<and> channel f 1 = [4, 0] \<and> channel f 2 = [5, - 5])"
proof -
  have h1: "0 < min_speakers loader0" and h2: "0 < max_speakers loader0"
    by (simp_all add: loader0_fields)
  have h3: "True \<longrightarrow> draws_orders rotating_lib" using draws_orders_rotating_lib by simp
  from mixture_file_shape [OF h1 h2 h3 read_world21, where dest = "''gen/train''"]
  obtain w' where
    gs: "generate_split rotating_lib loader0 (''src/train'', ''gen/train'', True) world21 = Inr w'"
    and files: "\<And>j i. 2 + j \<le> 20 \<Longrightarrow> i < 1 \<Longrightarrow>
       \<exists>f part k. k = 2 + j \<and>
          part = take k (drop (i * k) (fst (reshuffled rotating_lib True 0 recordings21 (Suc j)))) \<and>
          length part = k \<and>
          wav_at (bucket_file ''gen/train'' k i) w' = Some f \<and>
          channels f = k \<and>
          (\<forall>fr \<in> set (frames f). length fr = k) \<and>
          (\<forall>c<k. length (channel f c) = Max (length ` set part)) \<and>
          (\<forall>c<k. channel f c = part ! c @ replicate (Max (length ` set part) - length (part ! c)) 0)"
    unfolding loader0_fields by auto
  from files [of 1 0] obtain f where
    f: "wav_at ''gen/train/3/0.wav'' w' = Some f" "channels f = 3"
    and c: "\<forall>c<3. channel f c =
              [[3, - 3], [4], [5, - 5]] ! c @
              replicate (Max (length ` set [[3, - 3], [4], [5, - 5::int]]) -
                         length ([[3, - 3], [4], [5, - 5::int]] ! c)) 0"
    by (auto simp del: reshuffled.simps simp add: rotating_twice bucket_file_examples)
  have m: "Max (length ` set [[3, - 3], [4], [5, - 5::int]]) = 2" by simp
  from c have "channel f 0 = [3, - 3] \<and> channel f 1 = [4, 0] \<and> channel f 2 = [5, - 5]"
    unfolding m by simp
  with gs f h1 h2 draws_orders_rotating_lib read_world21 show ?thesis by blast
qed

subsection \<open>When the recordings are shuffled\<close>

text \<open>
  C1, as the spec states it, fails. With a generator whose every shuffle moves the first
  recording to the end, one pass over a train split of twenty-one recordings leaves the
  generator after nineteen shuffles, one per bucket; the file of bucket 2 holds the second
  and third recording, and the file of bucket 3 the third, fourth and fifth: no single
  order of the recordings gives both.
\<close>

theorem single_shuffle_counterexample:
  "map_sum id py_rng
     (generate_split rotating_lib loader0 (''src/train'', ''gen/train'', True) world21) = Inr 19 \<and>
   map_sum id (wav_at ''gen/train/2/0.wav'')
     (generate_split rotating_lib loader0 (''src/train'', ''gen/train'', True) world21) =
     Inr (Some \<lparr>rate = 16000, channels = 2, frames = [[2, 3], [- 2, - 3]]\<rparr>) \<and>
   map_sum id (wav_at ''gen/train/3/0.wav'')
     (generate_split rotating_lib loader0 (''src/train'', ''gen/train'', True) world21) =
     Inr (Some \<lparr>rate = 16000, channels = 3, frames = [[3, 4, 5], [- 3, 0, - 5]]\<rparr>)"
  using world21_train_pass by auto

text \<open>
  C1, amended. During one generation pass over a split with shuffle requested, the
  recording sequence is shuffled in place once for every bucket, right before that
  bucket is partitioned: the bucket of speaker count \<open>min_speakers + j\<close> is partitioned
  from the sequence after \<open>j + 1\<close> successive shuffles, each applied to what the one
  before has left, and the pass draws from the generator once per bucket.
\<close>

theorem shuffled_once_per_bucket:
  assumes "0 < min_speakers self" and "0 < max_speakers self"
    and "draws_orders L"
    and "mapE (read_file (src_wavs w)) (glob (src_wavs w) src ''.WAV'') = Inr data"
  shows "\<exists>w'. generate_split L self (src, dest, True) w = Inr w' \<and>
           py_rng w' = snd (reshuffled L True (py_rng w) data
                              (max_speakers self + 1 - min_speakers self)) \<and>
           (\<forall>j i. min_speakers self + j \<le> max_speakers self \<and>
                  i < length data div max_speakers self \<longrightarrow>
                  (\<exists>f. mixture self
                         (take (min_speakers self + j)
                            (drop (i * (min_speakers self + j))
                               (fst (reshuffled L True (py_rng w) data (Suc j))))) = Inr f \<and>
                       wav_at (bucket_file dest (min_speakers self + j) i) w' = Some f))"
  using generate_split_bases [OF assms(1,2) draws_orders_length [OF assms(3)] assms(4)] .

theorem shuffled_once_per_bucket_witness:
  "0 < min_speakers loader0 \<and> 0 < max_speakers loader0 \<and> draws_orders rotating_lib \<and>
   mapE (read_file (src_wavs world21)) (glob (src_wavs world21) ''src/train'' ''.WAV'') =
     Inr recordings21 \<and>
   (\<exists>w'. generate_split rotating_lib loader0 (''src/train'', ''gen/train'', True) world21 = Inr w' \<and>
         py_rng w' = snd (reshuffled rotating_lib True 0 recordings21 19) \<and>
         (\<exists>f. mixture loader0
                (take 3 (fst (reshuffled rotating_lib True 0 recordings21 (Suc (Suc 0))))) = Inr f \<and>
              wav_at ''gen/train/3/0.wav'' w' = Some f))"
proof -
  have h1: "0 < min_speakers loader0" and h2: "0 < max_speakers loader0"
    by (simp_all add: loader0_fields)
  from shuffled_once_per_bucket [OF h1 h2 draws_orders_rotating_lib read_world21,
      where dest = "''gen/train''"]
  obtain w' where
    gs: "generate_split rotating_lib loader0 (''src/train'', ''gen/train'', True) world21 = Inr w'"
    and rng: "py_rng w' = snd (reshuffled rotating_lib True 0 recordings21 19)"
    and files: "\<And>j i. 2 + j \<le> 20 \<Longrightarrow> i < 1 \<Longrightarrow>
       \<exists>f. mixture loader0 (take (2 + j) (drop (i * (2 + j))
               (fst (reshuffled rotating_lib True 0 recordings21 (Suc j))))) = Inr f \<and>
           wav_at (bucket_file ''gen/train'' (2 + j) i) w' = Some f"
    unfolding loader0_fields by auto
  from files [of 1 0] have
    "\<exists>f. mixture loader0
                (take 3 (fst (reshuffled rotating_lib True 0 recordings21 (Suc (Suc 0))))) = Inr f \<and>
         wav_at ''gen/train/3/0.wav'' w' = Some f"
    by (simp del: reshuffled.simps add: bucket_file_examples)
  with gs rng h1 h2 draws_orders_rotating_lib read_world21 show ?thesis by blast
qed

subsection \<open>The test split\<close>

lemma generate_datasets_unfold:
  "generate_datasets L self w =
     (case generate_split L self (train_src_dir self, train_dest_dir self, True)
             (write_log ''Generating data'' w) of
        Inl e \<Rightarrow> Inl e
      | Inr w1 \<Rightarrow>
          (case generate_split L self (test_src_dir self, test_dest_dir self, False) w1 of
             Inl e \<Rightarrow> Inl e
           | Inr w2 \<Rightarrow> Inr (write_log ''Data generated'' w2)))"
  by (simp add: generate_datasets_def split: sum.splits)

lemma read_world21_swapped:
  "mapE (read_file (src_wavs world21)) (glob (src_wavs world21) (test_src_dir loader_swapped) ''.WAV'') =
   Inr recordings21"
  using read_world21 by (simp add: loader_swapped_def dataloader_init_def)

lemma mixture_first_two:
  "mixture loader_swapped (take 2 (drop (0 * 2) recordings21)) =
   Inr \<lparr>rate = 16000, channels = 2, frames = [[1, 2], [0, - 2]]\<rparr>"
  by (simp add: mixture_def np_pad_def np_array_def loader_swapped_def dataloader_init_def recordings21_def)

text \<open>
  C10. \<open>__generate_datasets\<close> partitions the train split with the shuffle and the test
  split without it. The pass over the test split leaves Python's generator as it was,
  and the file it writes at index \<open>i\<close> of bucket \<open>k\<close> is the mixture of the recordings
  \<open>i * k, ..., i * k + k - 1\<close> in the order of enumeration: a function of the source
  recordings alone, whatever the generator and its state.
\<close>

theorem test_split_not_shuffled:
  assumes "0 < min_speakers self" and "0 < max_speakers self"
    and "mapE (read_file (src_wavs w)) (glob (src_wavs w) (test_src_dir self) ''.WAV'') = Inr data"
  shows "generate_datasets L self w0 =
           (case generate_split L self (train_src_dir self, train_dest_dir self, True)
                   (write_log ''Generating data'' w0) of
              Inl e \<Rightarrow> Inl e
            | Inr w1 \<Rightarrow>
                (case generate_split L self (test_src_dir self, test_dest_dir self, False) w1 of
                   Inl e \<Rightarrow> Inl e
                 | Inr w2 \<Rightarrow> Inr (write_log ''Data generated'' w2))) \<and>
         (\<exists>w'. generate_split L self (test_src_dir self, test_dest_dir self, False) w = Inr w' \<and>
            py_rng w' = py_rng w \<and>
            (\<forall>k i. min_speakers self \<le> k \<and> k \<le> max_speakers self \<and>
                   i < length data div max_speakers self \<longrightarrow>
                   (\<exists>f. mixture self (take k (drop (i * k) data)) = Inr f \<and>
                        wav_at (bucket_file (test_dest_dir self) k i) w' = Some f)))"
proof -
  have lp: "False \<longrightarrow> (\<forall>g m. length (fst (random_shuffle L g m)) = m)" by simp
  from generate_split_bases [OF assms(1,2) lp assms(3), where dest = "test_dest_dir self"]
  obtain w' where
    gs: "generate_split L self (test_src_dir self, test_dest_dir self, False) w = Inr w'"
    and rng: "py_rng w' = py_rng w"
    and files: "\<And>j i. min_speakers self + j \<le> max_speakers self \<Longrightarrow>
                  i < length data div max_speakers self \<Longrightarrow>
                  \<exists>f. mixture self (take (min_speakers self + j)
                          (drop (i * (min_speakers self + j)) data)) = Inr f \<and>
                      wav_at (bucket_file (test_dest_dir self) (min_speakers self + j) i) w' = Some f"
    unfolding reshuffled_no_shuffle by auto
  have "\<exists>f. mixture self (take k (drop (i * k) data)) = Inr f \<and>
            wav_at (bucket_file (test_dest_dir self) k i) w' = Some f"
    if "min_speakers self \<le> k \<and> k \<le> max_speakers self \<and> i < length data div max_speakers self"
    for k i
  proof -
    from that have "min_speakers self + (k - min_speakers self) \<le> max_speakers self"
      and "k = min_speakers self + (k - min_speakers self)" by simp_all
    with files [of "k - min_speakers self" i] that show ?thesis by simp
  qed
  with gs rng generate_datasets_unfold show ?thesis by blast
qed

theorem test_split_not_shuffled_witness:
  "0 < min_speakers loader_swapped \<and> 0 < max_speakers loader_swapped \<and>
   mapE (read_file (src_wavs world21))
     (glob (src_wavs world21) (test_src_dir loader_swapped) ''.WAV'') = Inr recordings21 \<and>
   (\<exists>w'. generate_split rotating_lib loader_swapped (''src/train'', ''gen/test'', False) world21 = Inr w' \<and>
        py_rng w' = 0 \<and>
        wav_at ''gen/test/2/0.wav'' w' =
          Some \<lparr>rate = 16000, channels = 2, frames = [[1, 2], [0, - 2]]\<rparr>)"
proof -
  have f: "min_speakers loader_swapped = 2" "max_speakers loader_swapped = 20"
    "test_src_dir loader_swapped = ''src/train''" "test_dest_dir loader_swapped = ''gen/test''"
    by (simp_all add: loader_swapped_def dataloader_init_def)
  have h1: "0 < min_speakers loader_swapped" and h2: "0 < max_speakers loader_swapped"
    by (simp_all add: f)
  from test_split_not_shuffled [OF h1 h2 read_world21_swapped, of rotating_lib world21]
  obtain w' where
    gs: "generate_split rotating_lib loader_swapped (''src/train'', ''gen/test'', False) world21 = Inr w'"
    and rng: "py_rng w' = py_rng world21"
    and files: "\<And>k i. 2 \<le> k \<Longrightarrow> k \<le> 20 \<Longrightarrow> i < 1 \<Longrightarrow>
                  \<exists>f. mixture loader_swapped (take k (drop (i * k) recordings21)) = Inr f \<and>
                      wav_at (bucket_file ''gen/test'' k i) w' = Some f"
    unfolding f loader0_fields by auto
  from files [of 2 0] have "wav_at ''gen/test/2/0.wav'' w' =
          Some \<lparr>rate = 16000, channels = 2, frames = [[1, 2], [0, - 2]]\<rparr>"
    unfolding mixture_first_two bucket_file_examples by simp
  with gs rng h1 h2 read_world21_swapped show ?thesis by (auto simp: loader0_fields)
qed

subsection \<open>Loading the buckets\<close>

lemma length_fit: "length (fit n x) = n"
  by (simp add: fit_def)

lemma pad_and_cut_fit: "pad_and_cut self x = Inr (fit (pad_to self) x)"
proof -
  have "nat (max (int (pad_to self) - int (length x)) 0) = pad_to self - length x" by simp
  then show ?thesis by (simp add: pad_and_cut_def np_pad_def fit_def)
qed

lemma mapE_pad_and_cut: "mapE (pad_and_cut self) xs = Inr (map (fit (pad_to self)) xs)"
  by (rule mapE_Inr_map) (simp add: pad_and_cut_fit)

lemma read_and_sum:
  "mapE (read_file store) ps = Inr fs \<Longrightarrow>
   mapE (\<lambda>f. np_sum_axis1 (snd (wavfile_read f))) fs = Inr xs \<Longrightarrow>
   xs = concat (map (\<lambda>p. case map_of store p of
                            None \<Rightarrow> []
                          | Some f \<Rightarrow> [map sum_list (frames f)]) ps)"
proof (induction ps arbitrary: fs xs)
  case Nil
  then show ?case by simp
next
  case (Cons p ps)
  from Cons.prems(1) obtain f fs' where
    f: "read_file store p = Inr f" and fs': "mapE (read_file store) ps = Inr fs'"
    and fs: "fs = f # fs'"
    by (auto split: sum.splits)
  from Cons.prems(2) fs obtain x xs' where
    x: "np_sum_axis1 (snd (wavfile_read f)) = Inr x"
    and xs': "mapE (\<lambda>f. np_sum_axis1 (snd (wavfile_read f))) fs' = Inr xs'"
    and xs: "xs = x # xs'"
    by (auto split: sum.splits)
  have m: "map_of store p = Some f" using f by (auto simp: read_file_def split: option.splits)
  have "x = map sum_list (frames f)" using x by (auto simp: wavfile_read_def split: if_splits)
  with Cons.IH [OF fs' xs'] m xs show ?case by simp
qed

lemma load_bucket_Inr:
  "load_bucket w (dest @ ''/'' @ str k) = Inr xs \<Longrightarrow> xs = bucket_waveforms w dest k"
  unfolding load_bucket_def bucket_waveforms_def
  by (auto split: sum.splits dest: read_and_sum)

lemma load_buckets_Inr:
  "load_buckets self w ks (train_x, train_y, test_x, test_y) = Inr (train_x', train_y', test_x', test_y') \<Longrightarrow>
   train_x' = train_x @ concat (map (bucket_waveforms w (train_dest_dir self)) ks) \<and>
   train_y' = train_y @ concat (map (\<lambda>k. replicate (length (bucket_waveforms w (train_dest_dir self) k)) (int k)) ks) \<and>
   test_x' = test_x @ concat (map (bucket_waveforms w (test_dest_dir self)) ks) \<and>
   test_y' = test_y @ concat (map (\<lambda>k. replicate (length (bucket_waveforms w (test_dest_dir self) k)) (int k)) ks)"
proof (induction ks arbitrary: train_x train_y test_x test_y)
  case Nil
  then show ?case by simp
next
  case (Cons k ks)
  from Cons.prems obtain a b where
    a: "load_bucket w (train_dest_dir self @ ''/'' @ str k) = Inr a"
    and b: "load_bucket w (test_dest_dir self @ ''/'' @ str k) = Inr b"
    and r: "load_buckets self w ks
              (train_x @ a, train_y @ replicate (length a) (int k),
               test_x @ b, test_y @ replicate (length b) (int k)) =
            Inr (train_x', train_y', test_x', test_y')"
    by (auto split: sum.splits)
  from Cons.IH [OF r] load_bucket_Inr [OF a] load_bucket_Inr [OF b] show ?case by simp
qed

lemma labelled_samples_fst:
  "map fst (labelled_samples self w dest) =
   map (fit (pad_to self)) (concat (map (bucket_waveforms w dest) [min_speakers self..<max_speakers self + 1]))"
  by (simp add: labelled_samples_def map_concat comp_def)

lemma labelled_samples_snd:
  "map snd (labelled_samples self w dest) =
   concat (map (\<lambda>k. replicate (length (bucket_waveforms w dest k)) (int k))
            [min_speakers self..<max_speakers self + 1])"
  by (simp add: labelled_samples_def map_concat comp_def map_replicate_const)

subsection \<open>Shuffling the arrays\<close>

lemma np_len_np_array: "np_len (np_array rows) = length rows"
  by (cases rows) (auto simp: np_array_def)

lemma is_order_nth: "is_order n order \<Longrightarrow> i \<in> set order \<Longrightarrow> i < n"
  by (auto simp: is_order_def)

lemma is_order_empty: "is_order 0 order \<Longrightarrow> order = []"
  by (simp add: is_order_def)

lemma permute_map: "map f (permute order xs) = map (\<lambda>i. f (xs ! i)) order"
  by (simp add: permute_def)

lemma permute_map_valid:
  "is_order (length xs) order \<Longrightarrow> permute order (map f xs) = map f (permute order xs)"
  by (auto simp: permute_def is_order_def)

lemma np_take_np_array:
  assumes "\<forall>r \<in> set rows. length r = m" and "is_order (length rows) order"
  shows "np_take (np_array rows) order = np_array (permute order rows)"
proof (cases rows)
  case Nil
  with assms(2) have "order = []" using is_order_empty by simp
  with Nil show ?thesis by (simp add: np_array_def permute_def)
next
  case (Cons r rs)
  have a: "np_array rows = Arr2 (length rows) m rows"
    using assms(1) Cons by (auto simp: np_array_def)
  have s: "set (permute order rows) = set rows" using permute_set [OF assms(2)] .
  then have ne: "permute order rows \<noteq> []" using Cons by auto
  then obtain r' rs' where p: "permute order rows = r' # rs'" by (cases "permute order rows") auto
  have all: "\<forall>x \<in> set (permute order rows). length x = m" using s assms(1) by simp
  then have "length r' = m" using p by simp
  with all p have "np_array (permute order rows) = Arr2 (length (permute order rows)) m (permute order rows)"
    by (auto simp: np_array_def)
  then show ?thesis using a by (simp add: permute_def)
qed

lemma sklearn_shuffle_rows:
  assumes "\<forall>r \<in> set rows. length r = m" and "draws_orders L"
  shows "\<exists>order g. np_shuffle L (np_rng w) (length rows) = (order, g) \<and>
           is_order (length rows) order \<and>
           sklearn_shuffle L (np_array rows) (Arr1 ys) w =
             ((np_array (permute order rows), Arr1 (permute order ys)), w\<lparr>np_rng := g\<rparr>)"
proof -
  obtain order g where r: "np_shuffle L (np_rng w) (length rows) = (order, g)" by fastforce
  have o: "is_order (length rows) order" using assms(2) r
    by (metis draws_orders_def fst_conv)
  from np_take_np_array [OF assms(1) o] r o show ?thesis
    by (simp add: sklearn_shuffle_def np_len_np_array permute_def)
qed

lemma labelled_samples_write_log:
  "labelled_samples self (write_log msg w) dest = labelled_samples self w dest"
  by (simp add: labelled_samples_def bucket_waveforms_def write_log_def)

lemma load_datasets_Inr:
  assumes "load_datasets L self w = Inr (r, w')" and "draws_orders L"
  shows "\<exists>o1 g1 o2 g2.
           np_shuffle L (np_rng w) (length (labelled_samples self w (train_dest_dir self))) = (o1, g1) \<and>
           np_shuffle L g1 (length (labelled_samples self w (test_dest_dir self))) = (o2, g2) \<and>
           is_order (length (labelled_samples self w (train_dest_dir self))) o1 \<and>
           is_order (length (labelled_samples self w (test_dest_dir self))) o2 \<and>
           r = PyTuple
                 [PyArray (np_array (map fst (permute o1 (labelled_samples self w (train_dest_dir self))))),
                  PyArray (Arr1 (map snd (permute o1 (labelled_samples self w (train_dest_dir self))))),
                  PyArray (np_array (map fst (permute o2 (labelled_samples self w (test_dest_dir self))))),
                  PyArray (Arr1 (map snd (permute o2 (labelled_samples self w (test_dest_dir self)))))] \<and>
           np_rng w' = g2"
proof -
  let ?w1 = "write_log ''Loading data'' w"
  let ?ks = "[min_speakers self..<max_speakers self + 1]"
  let ?P1 = "labelled_samples self w (train_dest_dir self)"
  let ?P2 = "labelled_samples self w (test_dest_dir self)"
  from assms(1) obtain train_x train_y test_x test_y where
    lb: "load_buckets self ?w1 ?ks ([], [], [], []) = Inr (train_x, train_y, test_x, test_y)"
    unfolding load_datasets_def Let_def by (auto split: sum.splits)
  from load_buckets_Inr [OF lb] have
    x1: "map (fit (pad_to self)) train_x = map fst ?P1" and y1: "train_y = map snd ?P1"
    and x2: "map (fit (pad_to self)) test_x = map fst ?P2" and y2: "test_y = map snd ?P2"
    using labelled_samples_fst [of self ?w1] labelled_samples_snd [of self ?w1]
    by (simp_all add: labelled_samples_write_log)
  have r1: "\<forall>r \<in> set (map fst ?P1). length r = pad_to self"
    unfolding x1 [symmetric] by (simp add: length_fit)
  have r2: "\<forall>r \<in> set (map fst ?P2). length r = pad_to self"
    unfolding x2 [symmetric] by (simp add: length_fit)
  from sklearn_shuffle_rows [OF r1 assms(2), of ?w1 "map snd ?P1"] obtain o1 g1 where
    s1: "np_shuffle L (np_rng ?w1) (length ?P1) = (o1, g1)" "is_order (length ?P1) o1"
      "sklearn_shuffle L (np_array (map fst ?P1)) (Arr1 (map snd ?P1)) ?w1 =
         ((np_array (permute o1 (map fst ?P1)), Arr1 (permute o1 (map snd ?P1))), ?w1\<lparr>np_rng := g1\<rparr>)"
    by auto
  from sklearn_shuffle_rows [OF r2 assms(2), of "?w1\<lparr>np_rng := g1\<rparr>" "map snd ?P2"] obtain o2 g2 where
    s2: "np_shuffle L g1 (length ?P2) = (o2, g2)" "is_order (length ?P2) o2"
      "sklearn_shuffle L (np_array (map fst ?P2)) (Arr1 (map snd ?P2)) (?w1\<lparr>np_rng := g1\<rparr>) =
         ((np_array (permute o2 (map fst ?P2)), Arr1 (permute o2 (map snd ?P2))),
          ?w1\<lparr>np_rng := g2\<rparr>)"
    by auto
  have rng: "np_rng ?w1 = np_rng w" by (simp add: write_log_def)
  have res: "r = PyTuple [PyArray (np_array (permute o1 (map fst ?P1))),
                         PyArray (Arr1 (permute o1 (map snd ?P1))),
                         PyArray (np_array (permute o2 (map fst ?P2))),
                         PyArray (Arr1 (permute o2 (map snd ?P2)))]"
    and rng': "np_rng w' = g2"
    using assms(1) lb s1(3) s2(3) x1 x2 y1 y2
    unfolding load_datasets_def Let_def
    by (auto simp: mapE_pad_and_cut write_log_def dataloader_save_to_file_def Let_def split: if_splits)
  have "permute o1 (map fst ?P1) = map fst (permute o1 ?P1)"
    "permute o1 (map snd ?P1) = map snd (permute o1 ?P1)"
    "permute o2 (map fst ?P2) = map fst (permute o2 ?P2)"
    "permute o2 (map snd ?P2) = map snd (permute o2 ?P2)"
    using s1(2) s2(2) by (simp_all add: permute_map_valid)
  with res rng' s1(1,2) s2(1,2) rng show ?thesis by auto
qed

subsection \<open>The samples of a Loader pass\<close>

lemma load_world_layout:
  "load_datasets rotating_lib loader4 world_layout =
   Inr (PyTuple
         [PyArray (Arr2 3 4 [[6, 0, 0, 0], [2, 4, 6, 8], [3, 7, 0, 0]]),
          PyArray (Arr1 [3, 2, 2]),
          PyArray (Arr2 1 4 [[0, 0, 0, 0]]),
          PyArray (Arr1 [2])],
        world_layout\<lparr>logged := [''Loading data'', ''Data loaded''], np_rng := 7\<rparr>)"
  apply (simp add: load_datasets_def load_bucket_def glob_def glob_match_def read_file_def
      wavfile_read_def pad_and_cut_def np_pad_def np_array_def sklearn_shuffle_def rotating_lib_def
      write_log_def loader4_def loader0_def dataloader_init_def world_layout_def str.simps digit_char_def
      Let_def del: upt_Suc)
  apply (simp add: numeral_3_eq_3 numeral_2_eq_2)
  done


lemma labelled_samples_origin:
  assumes "s \<in> set (labelled_samples self w dest)"
  shows "length (fst s) = pad_to self \<and>
         (\<exists>k v. min_speakers self \<le> k \<and> k \<le> max_speakers self \<and> snd s = int k \<and>
                v \<in> set (bucket_waveforms w dest k) \<and> fst s = fit (pad_to self) v)"
proof -
  from assms obtain k v where
    "k \<in> set [min_speakers self..<max_speakers self + 1]" "v \<in> set (bucket_waveforms w dest k)"
    "s = (fit (pad_to self) v, int k)"
    unfolding labelled_samples_def by auto
  then show ?thesis using in_range length_fit by auto
qed

text \<open>
  C6. Every sample a Loader pass returns has exactly \<open>pad_to\<close> values, the summed
  channels of its file followed by zeros or cut, and carries the label of its bucket:
  the rows of the features array and the entries of the labels array of a split are, in
  one common order, the samples of the split's buckets, each waveform of bucket \<open>k\<close>
  fitted to \<open>pad_to\<close> and paired with \<open>k\<close>. The shuffle draws a permutation.
\<close>

theorem loaded_samples:
  assumes "load_datasets L self w = Inr (r, w')" and "draws_orders L"
  shows "\<exists>train test.
           r = PyTuple [PyArray (np_array (map fst train)), PyArray (Arr1 (map snd train)),
                        PyArray (np_array (map fst test)), PyArray (Arr1 (map snd test))] \<and>
           set train = set (labelled_samples self w (train_dest_dir self)) \<and>
           length train = length (labelled_samples self w (train_dest_dir self)) \<and>
           set test = set (labelled_samples self w (test_dest_dir self)) \<and>
           length test = length (labelled_samples self w (test_dest_dir self)) \<and>
           (\<forall>s \<in> set train \<union> set test.
              length (fst s) = pad_to self \<and>
              (\<exists>k dest v. min_speakers self \<le> k \<and> k \<le> max_speakers self \<and> snd s = int k \<and>
                 dest \<in> {train_dest_dir self, test_dest_dir self} \<and>
                 v \<in> set (bucket_waveforms w dest k) \<and> fst s = fit (pad_to self) v))"
proof -
  let ?P1 = "labelled_samples self w (train_dest_dir self)"
  let ?P2 = "labelled_samples self w (test_dest_dir self)"
  from load_datasets_Inr [OF assms] obtain o1 o2 where
    o: "is_order (length ?P1) o1" "is_order (length ?P2) o2"
    and r: "r = PyTuple [PyArray (np_array (map fst (permute o1 ?P1))),
                        PyArray (Arr1 (map snd (permute o1 ?P1))),
                        PyArray (np_array (map fst (permute o2 ?P2))),
                        PyArray (Arr1 (map snd (permute o2 ?P2)))]"
    by blast
  have s: "set (permute o1 ?P1) = set ?P1" "set (permute o2 ?P2) = set ?P2"
    using o permute_set by blast+
  have l: "length (permute o1 ?P1) = length ?P1" "length (permute o2 ?P2) = length ?P2"
    using o by (simp_all add: permute_def is_order_def)
  have "length (fst s) = pad_to self \<and>
        (\<exists>k dest v. min_speakers self \<le> k \<and> k \<le> max_speakers self \<and> snd s = int k \<and>
           dest \<in> {train_dest_dir self, test_dest_dir self} \<and>
           v \<in> set (bucket_waveforms w dest k) \<and> fst s = fit (pad_to self) v)"
    if "s \<in> set (permute o1 ?P1) \<union> set (permute o2 ?P2)" for s
  proof -
    from that s have "s \<in> set ?P1 \<or> s \<in> set ?P2" by simp
    then show ?thesis
    proof
      assume "s \<in> set ?P1"
      from labelled_samples_origin [OF this] show ?thesis by blast
    next
      assume "s \<in> set ?P2"
      from labelled_samples_origin [OF this] show ?thesis by blast
    qed
  qed
  with r s l show ?thesis by blast
qed

theorem loaded_samples_witness:
  "load_datasets rotating_lib loader4 world_layout =
     Inr (PyTuple
           [PyArray (Arr2 3 4 [[6, 0, 0, 0], [2, 4, 6, 8], [3, 7, 0, 0]]),
            PyArray (Arr1 [3, 2, 2]),
            PyArray (Arr2 1 4 [[0, 0, 0, 0]]),
            PyArray (Arr1 [2])],
          world_layout\<lparr>logged := [''Loading data'', ''Data loaded''], np_rng := 7\<rparr>) \<and>
   draws_orders rotating_lib \<and>
   (\<exists>train test.
      PyTuple [PyArray (Arr2 3 4 [[6, 0, 0, 0], [2, 4, 6, 8], [3, 7, 0, 0]]),
               PyArray (Arr1 [3, 2, 2]),
               PyArray (Arr2 1 4 [[0, 0, 0, 0]]),
               PyArray (Arr1 [2])] =
      PyTuple [PyArray (np_array (map fst train)), PyArray (Arr1 (map snd train)),
               PyArray (np_array (map fst test)), PyArray (Arr1 (map snd test))] \<and>
      set train = set (labelled_samples loader4 world_layout (train_dest_dir loader4)) \<and>
      length train = length (labelled_samples loader4 world_layout (train_dest_dir loader4)) \<and>
      set test = set (labelled_samples loader4 world_layout (test_dest_dir loader4)) \<and>
      length test = length (labelled_samples loader4 world_layout (test_dest_dir loader4)) \<and>
      (\<forall>s \<in> set train \<union> set test.
         length (fst s) = pad_to loader4 \<and>
         (\<exists>k dest v. min_speakers loader4 \<le> k \<and> k \<le> max_speakers loader4 \<and> snd s = int k \<and>
            dest \<in> {train_dest_dir loader4, test_dest_dir loader4} \<and>
            v \<in> set (bucket_waveforms world_layout dest k) \<and> fst s = fit (pad_to loader4) v)))"
proof (intro conjI)
  show "load_datasets rotating_lib loader4 world_layout =
     Inr (PyTuple
           [PyArray (Arr2 3 4 [[6, 0, 0, 0], [2, 4, 6, 8], [3, 7, 0, 0]]),
            PyArray (Arr1 [3, 2, 2]),
            PyArray (Arr2 1 4 [[0, 0, 0, 0]]),
            PyArray (Arr1 [2])],
          world_layout\<lparr>logged := [''Loading data'', ''Data loaded''], np_rng := 7\<rparr>)"
    by (rule load_world_layout)
  show "draws_orders rotating_lib" by (rule draws_orders_rotating_lib)
qed (rule loaded_samples [OF load_world_layout draws_orders_rotating_lib])

subsection \<open>Determinism of a Loader pass\<close>

lemma load_buckets_layout:
  "wavs w1 = wavs w2 \<Longrightarrow> train_dest_dir s1 = train_dest_dir s2 \<Longrightarrow>
   test_dest_dir s1 = test_dest_dir s2 \<Longrightarrow>
   load_buckets s1 w1 ks acc = load_buckets s2 w2 ks acc"
proof (induction s1 w1 ks acc rule: load_buckets.induct)
  case (1 self w acc)
  then show ?case by simp
next
  case (2 self w y ys train_x train_y test_x test_y)
  have b: "\<And>d. load_bucket w d = load_bucket w2 d" using 2(2) by (simp add: load_bucket_def)
  show ?case using 2 b by (auto split: sum.splits)
qed

text \<open>
  C8. The arrays a Loader pass returns are a function of the generated layout and of the
  state of NumPy's global generator when the pass starts, which is what a seed fixes:
  two passes over worlds with the same layout, started in the same state, return
  identical features and labels for both splits (or fail alike), whatever else differs
  between the worlds and whether or not a pass saves a snapshot.
\<close>

theorem load_deterministic:
  assumes "wavs w1 = wavs w2" and "np_rng w1 = np_rng w2"
  shows "map_sum id fst (load_datasets L (self\<lparr>save_to_file := save_a\<rparr>) w1) =
         map_sum id fst (load_datasets L (self\<lparr>save_to_file := save_b\<rparr>) w2)"
proof -
  have lb: "\<And>ks acc. load_buckets (self\<lparr>save_to_file := save_a\<rparr>) (write_log ''Loading data'' w1) ks acc =
        load_buckets (self\<lparr>save_to_file := save_b\<rparr>) (write_log ''Loading data'' w2) ks acc"
    by (rule load_buckets_layout) (simp_all add: write_log_def assms(1))
  have pc: "\<And>x. pad_and_cut (self\<lparr>save_to_file := save_a\<rparr>) x = pad_and_cut (self\<lparr>save_to_file := save_b\<rparr>) x"
    by (simp add: pad_and_cut_fit)
  then have pcs: "pad_and_cut (self\<lparr>save_to_file := save_a\<rparr>) = pad_and_cut (self\<lparr>save_to_file := save_b\<rparr>)"
    by blast
  show ?thesis
    unfolding load_datasets_def Let_def lb pcs
    using assms(2)
    by (auto simp: sklearn_shuffle_def write_log_def split: sum.splits prod.splits)
qed

theorem load_deterministic_witness:
  "wavs world_layout = wavs world_layout_other \<and> np_rng world_layout = np_rng world_layout_other \<and>
   map_sum id fst (load_datasets rotating_lib (loader4\<lparr>save_to_file := False\<rparr>) world_layout) =
   map_sum id fst (load_datasets rotating_lib (loader4\<lparr>save_to_file := True\<rparr>) world_layout_other) \<and>
   map_sum id fst (load_datasets rotating_lib (loader4\<lparr>save_to_file := True\<rparr>) world_layout_other) =
   Inr (PyTuple
         [PyArray (Arr2 3 4 [[6, 0, 0, 0], [2, 4, 6, 8], [3, 7, 0, 0]]),
          PyArray (Arr1 [3, 2, 2]),
          PyArray (Arr2 1 4 [[0, 0, 0, 0]]),
          PyArray (Arr1 [2])])"
proof -
  have h1: "wavs world_layout = wavs world_layout_other"
    and h2: "np_rng world_layout = np_rng world_layout_other"
    by (simp_all add: world_layout_other_def)
  have l: "loader4\<lparr>save_to_file := False\<rparr> = loader4"
    by (simp add: loader4_def loader0_def dataloader_init_def)
  from load_deterministic [OF h1 h2, where L = rotating_lib and self = loader4
      and save_a = False and save_b = True] load_world_layout h1 h2
  show ?thesis by (simp add: l)
qed

subsection \<open>Loading the snapshot\<close>

lemma load_sets_npys: "load_sets ss w = Inr w' \<Longrightarrow> w' = w\<lparr>attrs := attrs w'\<rparr>"
proof (induction ss arbitrary: w)
  case Nil
  then show ?case by simp
next
  case (Cons s ss)
  then obtain a where a: "map_of (npys w) (s @ ''.npy'') = Some a"
    by (auto simp: Let_def split: option.splits)
  with Cons.prems have "load_sets ss (w\<lparr>attrs := write_file s a (attrs w)\<rparr>) = Inr w'"
    by (simp add: Let_def)
  from Cons.IH [OF this] show ?case by simp
qed

lemma load_sets_missing:
  "find (\<lambda>s. map_of (npys w) (s @ ''.npy'') = None) ss = Some m \<Longrightarrow>
   load_sets ss w = Inl (FileNotFoundError (m @ ''.npy''))"
proof (induction ss arbitrary: w)
  case Nil
  then show ?case by simp
next
  case (Cons s ss)
  show ?case
  proof (cases "map_of (npys w) (s @ ''.npy'')")
    case None
    with Cons.prems show ?thesis by (simp add: Let_def)
  next
    case (Some a)
    with Cons.prems have
      "find (\<lambda>n. map_of (npys (w\<lparr>attrs := write_file s a (attrs w)\<rparr>)) (n @ ''.npy'') = None) ss = Some m"
      by simp
    from Cons.IH [OF this] Some show ?thesis by (simp add: Let_def)
  qed
qed

lemma dlff_missing:
  "first_missing w = Some m \<Longrightarrow>
   dataloader_load_from_file w = Inl (FileNotFoundError (m @ ''.npy''))"
proof -
  assume "first_missing w = Some m"
  then have "find (\<lambda>s. map_of (npys (write_log ''Loading data from filesystem'' w)) (s @ ''.npy'') = None)
               [''train_x'', ''train_y'', ''test_x'', ''test_y''] = Some m"
    by (simp add: first_missing_def snapshot_sets_def write_log_def)
  from load_sets_missing [OF this] show ?thesis
    by (simp add: dataloader_load_from_file_def)
qed

lemma dlff_complete:
  assumes "map_of (npys w) ''train_x.npy'' = Some a" and "map_of (npys w) ''train_y.npy'' = Some b"
    and "map_of (npys w) ''test_x.npy'' = Some c" and "map_of (npys w) ''test_y.npy'' = Some d"
  shows "dataloader_load_from_file w =
         Inr (PyMap [py_tuple a, py_tuple b, py_tuple c, py_tuple d],
              w\<lparr>logged := logged w @ [''Loading data from filesystem'', ''Data loaded''],
                attrs := write_file ''test_y'' d (write_file ''test_x'' c
                           (write_file ''train_y'' b (write_file ''train_x'' a (attrs w))))\<rparr>)"
  using assms
  by (simp add: dataloader_load_from_file_def write_log_def getattr_def map_of_write_file Let_def)

lemma first_missing_None:
  "first_missing w = None \<Longrightarrow>
   \<exists>a b c d. map_of (npys w) ''train_x.npy'' = Some a \<and> map_of (npys w) ''train_y.npy'' = Some b \<and>
             map_of (npys w) ''test_x.npy'' = Some c \<and> map_of (npys w) ''test_y.npy'' = Some d"
  by (auto simp: first_missing_def snapshot_sets_def split: if_splits)

lemma first_missing_Some:
  "first_missing w = Some m \<Longrightarrow> m \<in> set snapshot_sets \<and> map_of (npys w) (m @ ''.npy'') = None"
  unfolding first_missing_def by (auto simp: find_Some_iff)

lemma missing_first_missing:
  "s \<in> set snapshot_sets \<Longrightarrow> map_of (npys w) (s @ ''.npy'') = None \<Longrightarrow> \<exists>m. first_missing w = Some m"
  unfolding first_missing_def by (cases "find (\<lambda>s. map_of (npys w) (s @ ''.npy'') = None) snapshot_sets")
    (auto simp: find_None_iff)

lemma first_missing_npys: "npys w1 = npys w2 \<Longrightarrow> first_missing w1 = first_missing w2"
  by (simp add: first_missing_def)

lemma dlff_layout:
  assumes "npys w1 = npys w2"
  shows "map_sum id fst (dataloader_load_from_file w1) = map_sum id fst (dataloader_load_from_file w2)"
proof (cases "first_missing w1")
  case None
  from first_missing_None [OF None] obtain a b c d where
    "map_of (npys w1) ''train_x.npy'' = Some a" "map_of (npys w1) ''train_y.npy'' = Some b"
    "map_of (npys w1) ''test_x.npy'' = Some c" "map_of (npys w1) ''test_y.npy'' = Some d" by blast
  with assms dlff_complete [of w1 a b c d] dlff_complete [of w2 a b c d] show ?thesis by simp
next
  case (Some m)
  with assms dlff_missing [of w1 m] dlff_missing [of w2 m] first_missing_npys [OF assms]
  show ?thesis by simp
qed

lemma dlff_frame:
  assumes "dataloader_load_from_file w = Inr (r, w')"
  shows "wavs w' = wavs w \<and> dirs w' = dirs w \<and> src_wavs w' = src_wavs w \<and> npys w' = npys w \<and>
         py_rng w' = py_rng w \<and> np_rng w' = np_rng w \<and>
         logged w' = logged w @ [''Loading data from filesystem'', ''Data loaded''] \<and>
         (\<exists>ts. r = PyMap ts)"
proof (cases "first_missing w")
  case None
  from first_missing_None [OF None] obtain a b c d where
    "map_of (npys w) ''train_x.npy'' = Some a" "map_of (npys w) ''train_y.npy'' = Some b"
    "map_of (npys w) ''test_x.npy'' = Some c" "map_of (npys w) ''test_y.npy'' = Some d" by blast
  from dlff_complete [OF this] assms show ?thesis by auto
next
  case (Some m)
  from dlff_missing [OF this] assms show ?thesis by simp
qed

subsection \<open>What generation leaves alone\<close>

lemma ccs_Inr_pos:
  "create_concurrent_speakers L self train dest k n shuffle w = Inr r \<Longrightarrow> 0 < k"
  by (cases "k = 0")
     (auto simp: create_concurrent_speakers_def range_step_def Let_def split: prod.splits)

lemma gb_Inr_pos:
  "generate_buckets L self dest n shuffle ks data w = Inr r \<Longrightarrow> \<forall>k \<in> set ks. 0 < k"
proof (induction ks arbitrary: data w)
  case Nil
  then show ?case by simp
next
  case (Cons k ks)
  then obtain d1 w1 where
    c: "create_concurrent_speakers L self data dest k n shuffle w = Inr (d1, w1)"
    and r: "generate_buckets L self dest n shuffle ks d1 w1 = Inr r"
    by (auto split: sum.splits)
  from ccs_Inr_pos [OF c] Cons.IH [OF r] show ?case by simp
qed

lemma generate_split_frame:
  assumes "generate_split L self d w = Inr w'"
  shows "src_wavs w' = src_wavs w \<and> npys w' = npys w \<and> logged w' = logged w \<and>
         np_rng w' = np_rng w \<and> attrs w' = attrs w \<and> dirs w \<subseteq> dirs w'"
proof -
  obtain src dest shuffle where d: "d = (src, dest, shuffle)" by (cases d) auto
  from assms obtain n ks data data' where
    gb: "generate_buckets L self dest n shuffle ks data w = Inr (data', w')"
    unfolding d generate_split_def Let_def
    by (auto simp del: upt_Suc generate_buckets.simps split: if_splits sum.splits)
  from gb_frame [OF gb gb_Inr_pos [OF gb]] show ?thesis by simp
qed

lemma generate_datasets_frame:
  assumes "generate_datasets L self w = Inr w'"
  shows "src_wavs w' = src_wavs w \<and> npys w' = npys w \<and>
         logged w' = logged w @ [''Generating data'', ''Data generated''] \<and>
         np_rng w' = np_rng w \<and> attrs w' = attrs w \<and> dirs w \<subseteq> dirs w'"
proof -
  from assms obtain w1 w2 where
    1: "generate_split L self (train_src_dir self, train_dest_dir self, True)
          (write_log ''Generating data'' w) = Inr w1"
    and 2: "generate_split L self (test_src_dir self, test_dest_dir self, False) w1 = Inr w2"
    and 3: "w' = write_log ''Data generated'' w2"
    unfolding generate_datasets_unfold by (auto split: sum.splits)
  from generate_split_frame [OF 1] generate_split_frame [OF 2] 3 show ?thesis
    by (auto simp: write_log_def)
qed

lemma generate_split_succeeds:
  assumes "0 < min_speakers self" and "0 < max_speakers self" and "shuffle \<longrightarrow> draws_orders L"
  shows "\<exists>w'. generate_split L self (src, dest, shuffle) w = Inr w'"
proof -
  obtain data where d: "mapE (read_file (src_wavs w)) (glob (src_wavs w) src ''.WAV'') = Inr data"
    using read_globbed by blast
  have "shuffle \<longrightarrow> (\<forall>g m. length (fst (random_shuffle L g m)) = m)"
    using assms(3) draws_orders_length by blast
  from generate_split_bases [OF assms(1,2) this d] show ?thesis by blast
qed

lemma generate_datasets_succeeds:
  assumes "0 < min_speakers self" and "0 < max_speakers self" and "draws_orders L"
  shows "\<exists>w'. generate_datasets L self w = Inr w'"
proof -
  from generate_split_succeeds [OF assms(1,2), of True L] assms(3) obtain w1 where
    1: "generate_split L self (train_src_dir self, train_dest_dir self, True)
          (write_log ''Generating data'' w) = Inr w1" by blast
  from generate_split_succeeds [OF assms(1,2), of False L] obtain w2 where
    2: "generate_split L self (test_src_dir self, test_dest_dir self, False) w1 = Inr w2" by blast
  from 1 2 show ?thesis unfolding generate_datasets_unfold by simp
qed

subsection \<open>The snapshot load and its failure\<close>

lemma world_snapshot_loaded:
  "map_sum id fst (dataloader_load_from_file world_snapshot) =
   Inr (PyMap
         [PyTuple [PyArray (Arr1 [6, 0, 0, 0]), PyArray (Arr1 [2, 4, 6, 8]), PyArray (Arr1 [3, 7, 0, 0])],
          PyTuple [PyInt 3, PyInt 2, PyInt 2],
          PyTuple [PyArray (Arr1 [0, 0, 0, 0])],
          PyTuple [PyInt 2]])"
  by (simp add: dataloader_load_from_file_def write_log_def getattr_def world_snapshot_def Let_def)

lemma first_missing_examples:
  "first_missing world_snapshot = None" "first_missing world_half_snapshot = Some ''test_x''"
  by (simp_all add: first_missing_def snapshot_sets_def world_snapshot_def world_half_snapshot_def)

lemma loader0_flags: "load_from_file loader0" "\<not> save_to_file loader0"
  by (simp_all add: loader0_def dataloader_init_def)

text \<open>
  C7. The snapshot load reads all four artifacts: when none is absent it returns what
  it read from \<open>train_x\<close>, \<open>train_y\<close>, \<open>test_x\<close> and \<open>test_y\<close>. When any of the four is
  absent it raises \<open>FileNotFoundError\<close> with the file name of the first absent one, and
  \<open>load_data\<close> with the load-from-snapshot flag set ends in that error (or, with
  \<open>force_recreate\<close>, in the error of the generation that runs first): it never returns
  a result from another loading path.
\<close>

theorem snapshot_load:
  "(first_missing w = None \<longrightarrow>
      (\<exists>a b c d w'.
         map_of (npys w) ''train_x.npy'' = Some a \<and> map_of (npys w) ''train_y.npy'' = Some b \<and>
         map_of (npys w) ''test_x.npy'' = Some c \<and> map_of (npys w) ''test_y.npy'' = Some d \<and>
         dataloader_load_from_file w =
           Inr (PyMap [py_tuple a, py_tuple b, py_tuple c, py_tuple d], w'))) \<and>
   (\<forall>s \<in> set snapshot_sets. map_of (npys w) (s @ ''.npy'') = None \<longrightarrow>
      (\<exists>m. first_missing w = Some m \<and> m \<in> set snapshot_sets \<and>
           map_of (npys w) (m @ ''.npy'') = None \<and>
           dataloader_load_from_file w = Inl (FileNotFoundError (m @ ''.npy'')) \<and>
           (load_from_file self \<longrightarrow>
              load_data L self False w = Inl (FileNotFoundError (m @ ''.npy'')) \<and>
              (load_data L self True w = Inl (FileNotFoundError (m @ ''.npy'')) \<or>
               (\<exists>e. generate_datasets L self w = Inl e \<and> load_data L self True w = Inl e)))))"
proof (intro conjI impI ballI)
  assume "first_missing w = None"
  from first_missing_None [OF this] obtain a b c d where
    n: "map_of (npys w) ''train_x.npy'' = Some a" "map_of (npys w) ''train_y.npy'' = Some b"
    "map_of (npys w) ''test_x.npy'' = Some c" "map_of (npys w) ''test_y.npy'' = Some d" by blast
  from dlff_complete [OF this] n
  show "\<exists>a b c d w'.
         map_of (npys w) ''train_x.npy'' = Some a \<and> map_of (npys w) ''train_y.npy'' = Some b \<and>
         map_of (npys w) ''test_x.npy'' = Some c \<and> map_of (npys w) ''test_y.npy'' = Some d \<and>
         dataloader_load_from_file w =
           Inr (PyMap [py_tuple a, py_tuple b, py_tuple c, py_tuple d], w')"
    by blast
next
  fix s assume s: "s \<in> set snapshot_sets" "map_of (npys w) (s @ ''.npy'') = None"
  from missing_first_missing [OF s] obtain m where m: "first_missing w = Some m" by blast
  note fm = first_missing_Some [OF m]
  note d = dlff_missing [OF m]
  have f: "load_data L self False w = Inl (FileNotFoundError (m @ ''.npy''))"
    if "load_from_file self"
    using that d by (simp add: load_data_def)
  have t: "load_data L self True w = Inl (FileNotFoundError (m @ ''.npy'')) \<or>
           (\<exists>e. generate_datasets L self w = Inl e \<and> load_data L self True w = Inl e)"
    if lf: "load_from_file self"
  proof (cases "generate_datasets L self w")
    case (Inl e)
    then show ?thesis by (simp add: load_data_def)
  next
    case (Inr w1)
    from generate_datasets_frame [OF Inr] have "npys w1 = npys w" by simp
    from first_missing_npys [OF this] m have "first_missing w1 = Some m" by simp
    from dlff_missing [OF this] Inr lf show ?thesis by (simp add: load_data_def)
  qed
  from m fm d f t
  show "\<exists>m. first_missing w = Some m \<and> m \<in> set snapshot_sets \<and>
           map_of (npys w) (m @ ''.npy'') = None \<and>
           dataloader_load_from_file w = Inl (FileNotFoundError (m @ ''.npy'')) \<and>
           (load_from_file self \<longrightarrow>
              load_data L self False w = Inl (FileNotFoundError (m @ ''.npy'')) \<and>
              (load_data L self True w = Inl (FileNotFoundError (m @ ''.npy'')) \<or>
               (\<exists>e. generate_datasets L self w = Inl e \<and> load_data L self True w = Inl e)))"
    by blast
qed

theorem snapshot_load_witness:
  "first_missing world_snapshot = None \<and>
   map_sum id fst (dataloader_load_from_file world_snapshot) =
     Inr (PyMap
           [PyTuple [PyArray (Arr1 [6, 0, 0, 0]), PyArray (Arr1 [2, 4, 6, 8]), PyArray (Arr1 [3, 7, 0, 0])],
            PyTuple [PyInt 3, PyInt 2, PyInt 2],
            PyTuple [PyArray (Arr1 [0, 0, 0, 0])],
            PyTuple [PyInt 2]]) \<and>
   ''test_y'' \<in> set snapshot_sets \<and>
   map_of (npys world_half_snapshot) (''test_y'' @ ''.npy'') = None \<and>
   load_from_file loader0 \<and>
   dataloader_load_from_file world_half_snapshot = Inl (FileNotFoundError ''test_x.npy'') \<and>
   load_data rotating_lib loader0 False world_half_snapshot = Inl (FileNotFoundError ''test_x.npy'') \<and>
   load_data rotating_lib loader0 True world_half_snapshot = Inl (FileNotFoundError ''test_x.npy'')"
proof -
  have s: "''test_y'' \<in> set snapshot_sets" by (simp add: snapshot_sets_def)
  have n: "map_of (npys world_half_snapshot) (''test_y'' @ ''.npy'') = None"
    by (simp add: world_half_snapshot_def)
  from snapshot_load [of world_half_snapshot loader0 rotating_lib, THEN conjunct2, rule_format, OF s n]
  obtain m where m: "first_missing world_half_snapshot = Some m"
    and dm: "dataloader_load_from_file world_half_snapshot = Inl (FileNotFoundError (m @ ''.npy''))"
    and lm: "load_from_file loader0 \<longrightarrow>
              load_data rotating_lib loader0 False world_half_snapshot = Inl (FileNotFoundError (m @ ''.npy'')) \<and>
              (load_data rotating_lib loader0 True world_half_snapshot = Inl (FileNotFoundError (m @ ''.npy'')) \<or>
               (\<exists>e. generate_datasets rotating_lib loader0 world_half_snapshot = Inl e \<and>
                    load_data rotating_lib loader0 True world_half_snapshot = Inl e))"
    by blast
  from m first_missing_examples(2) have mx: "m = ''test_x''" by simp
  from dm mx
  have d: "dataloader_load_from_file world_half_snapshot = Inl (FileNotFoundError ''test_x.npy'')"
    by simp
  from lm mx loader0_flags(1)
  have f: "load_data rotating_lib loader0 False world_half_snapshot = Inl (FileNotFoundError ''test_x.npy'')"
    and t: "load_data rotating_lib loader0 True world_half_snapshot = Inl (FileNotFoundError ''test_x.npy'') \<or>
            (\<exists>e. generate_datasets rotating_lib loader0 world_half_snapshot = Inl e \<and>
                 load_data rotating_lib loader0 True world_half_snapshot = Inl e)"
    by simp_all
  have "\<exists>w'. generate_datasets rotating_lib loader0 world_half_snapshot = Inr w'"
    by (rule generate_datasets_succeeds) (simp_all add: loader0_fields draws_orders_rotating_lib)
  with t have t': "load_data rotating_lib loader0 True world_half_snapshot = Inl (FileNotFoundError ''test_x.npy'')"
    by auto
  from snapshot_load [of world_snapshot loader0 rotating_lib] first_missing_examples(1)
  have "\<exists>a b c d w'. dataloader_load_from_file world_snapshot =
           Inr (PyMap [py_tuple a, py_tuple b, py_tuple c, py_tuple d], w')" by blast
  with first_missing_examples(1) world_snapshot_loaded s n loader0_flags(1) d f t'
  show ?thesis by (intro conjI)
qed

subsection \<open>What the two paths return\<close>

lemma loader4_fields:
  "\<not> load_from_file loader4" "train_dest_dir loader4 = ''gen/train''"
  "test_dest_dir loader4 = ''gen/test''"
  by (simp_all add: loader4_def loader0_def dataloader_init_def)

lemma world_layout_dirs: "''gen/train'' \<in> dirs world_layout" "''gen/test'' \<in> dirs world_layout"
  by (simp_all add: world_layout_def)

lemma load_data_world_layout:
  "load_data rotating_lib loader4 False world_layout = load_datasets rotating_lib loader4 world_layout"
  by (simp add: load_data_def loader4_fields world_layout_dirs)

lemma load_data_world_snapshot:
  "load_data rotating_lib loader0 False world_snapshot = dataloader_load_from_file world_snapshot"
  by (simp add: load_data_def loader0_flags)

text \<open>
  C3 does not hold of the code. The same dataset comes back in two different kinds of
  value: from the Loader pass as a tuple of four arrays, from the snapshot load (the
  default path) as the iterator \<open>map(tuple, [...])\<close>, whose four items are tuples of the
  rows or entries of the arrays, not arrays.
\<close>

theorem snapshot_path_returns_map_of_tuples:
  "map_sum id fst (load_data rotating_lib loader4 False world_layout) =
     Inr (PyTuple
           [PyArray (Arr2 3 4 [[6, 0, 0, 0], [2, 4, 6, 8], [3, 7, 0, 0]]),
            PyArray (Arr1 [3, 2, 2]),
            PyArray (Arr2 1 4 [[0, 0, 0, 0]]),
            PyArray (Arr1 [2])]) \<and>
   map_sum id fst (load_data rotating_lib loader0 False world_snapshot) =
     Inr (PyMap
           [PyTuple [PyArray (Arr1 [6, 0, 0, 0]), PyArray (Arr1 [2, 4, 6, 8]), PyArray (Arr1 [3, 7, 0, 0])],
            PyTuple [PyInt 3, PyInt 2, PyInt 2],
            PyTuple [PyArray (Arr1 [0, 0, 0, 0])],
            PyTuple [PyInt 2]])"
  unfolding load_data_world_layout load_data_world_snapshot
  using load_world_layout world_snapshot_loaded by simp

theorem snapshot_path_returns_map_of_tuples_witness:
  "load_from_file loader0 \<and>
   map_sum id fst (load_data rotating_lib loader0 False world_snapshot) =
     Inr (PyMap
           [PyTuple [PyArray (Arr1 [6, 0, 0, 0]), PyArray (Arr1 [2, 4, 6, 8]), PyArray (Arr1 [3, 7, 0, 0])],
            PyTuple [PyInt 3, PyInt 2, PyInt 2],
            PyTuple [PyArray (Arr1 [0, 0, 0, 0])],
            PyTuple [PyInt 2]])"
  using snapshot_path_returns_map_of_tuples loader0_flags(1) by blast

subsection \<open>The strategy of the entry point\<close>

lemma load_data_unfold_snapshot:
  "load_from_file self \<Longrightarrow>
   load_data L self force w =
     (case (if force then generate_datasets L self w else Inr w) of
        Inl e \<Rightarrow> Inl e
      | Inr w1 \<Rightarrow> dataloader_load_from_file w1)"
  by (simp add: load_data_def split: sum.splits)

lemma load_data_unfold_loader:
  "\<not> load_from_file self \<Longrightarrow>
   load_data L self force w =
     (case (if force then generate_datasets L self w else Inr w) of
        Inl e \<Rightarrow> Inl e
      | Inr w1 \<Rightarrow>
          (case (if train_dest_dir self \<in> dirs w1 \<and> test_dest_dir self \<in> dirs w1
                 then Inr w1 else generate_datasets L self w1) of
             Inl e \<Rightarrow> Inl e
           | Inr w2 \<Rightarrow> load_datasets L self w2))"
  by (simp add: load_data_def split: sum.splits)

lemma forced_snapshot_run:
  "\<exists>w1 w'. generate_datasets rotating_lib loader0 world_snapshot = Inr w1 \<and>
     load_data rotating_lib loader0 True world_snapshot =
       Inr (PyMap
             [PyTuple [PyArray (Arr1 [6, 0, 0, 0]), PyArray (Arr1 [2, 4, 6, 8]), PyArray (Arr1 [3, 7, 0, 0])],
              PyTuple [PyInt 3, PyInt 2, PyInt 2],
              PyTuple [PyArray (Arr1 [0, 0, 0, 0])],
              PyTuple [PyInt 2]], w') \<and>
     logged w' = [''Generating data'', ''Data generated'', ''Loading data from filesystem'', ''Data loaded'']"
proof -
  obtain w1 where g: "generate_datasets rotating_lib loader0 world_snapshot = Inr w1"
    using generate_datasets_succeeds [of loader0 rotating_lib world_snapshot]
    by (auto simp: loader0_fields draws_orders_rotating_lib)
  from generate_datasets_frame [OF g] have
    n: "npys w1 = npys world_snapshot"
    and l: "logged w1 = [''Generating data'', ''Data generated'']"
    by (simp_all add: world_snapshot_def)
  have ld: "load_data rotating_lib loader0 True world_snapshot = dataloader_load_from_file w1"
    using g by (simp add: load_data_def loader0_flags)
  from dlff_layout [OF n] world_snapshot_loaded obtain w' where
    d: "dataloader_load_from_file w1 =
       Inr (PyMap
             [PyTuple [PyArray (Arr1 [6, 0, 0, 0]), PyArray (Arr1 [2, 4, 6, 8]), PyArray (Arr1 [3, 7, 0, 0])],
              PyTuple [PyInt 3, PyInt 2, PyInt 2],
              PyTuple [PyArray (Arr1 [0, 0, 0, 0])],
              PyTuple [PyInt 2]], w')"
    by (cases "dataloader_load_from_file w1") auto
  from dlff_frame [OF d] l have
    "logged w' = [''Generating data'', ''Data generated'', ''Loading data from filesystem'', ''Data loaded'']"
    by simp
  with g ld d show ?thesis by auto
qed

text \<open>
  C2, as the spec states it, fails. With \<open>force_recreate\<close> set and the load-from-snapshot
  flag set (its default), \<open>load_data\<close> regenerates and then returns the snapshot: the
  log shows the generation followed by the load from the file system, and the result
  is not what a Loader pass over the generated layout returns.
\<close>

theorem forced_recreate_counterexample:
  "load_from_file loader0 \<and>
   map_sum id fst (load_data rotating_lib loader0 True world_snapshot) =
     Inr (PyMap
           [PyTuple [PyArray (Arr1 [6, 0, 0, 0]), PyArray (Arr1 [2, 4, 6, 8]), PyArray (Arr1 [3, 7, 0, 0])],
            PyTuple [PyInt 3, PyInt 2, PyInt 2],
            PyTuple [PyArray (Arr1 [0, 0, 0, 0])],
            PyTuple [PyInt 2]]) \<and>
   map_sum id (logged \<circ> snd) (load_data rotating_lib loader0 True world_snapshot) =
     Inr [''Generating data'', ''Data generated'', ''Loading data from filesystem'', ''Data loaded''] \<and>
   map_sum id fst (load_data rotating_lib loader0 True world_snapshot) \<noteq>
   map_sum id fst
     (case generate_datasets rotating_lib loader0 world_snapshot of
        Inl e \<Rightarrow> Inl e
      | Inr w1 \<Rightarrow> load_datasets rotating_lib loader0 w1)"
proof -
  from forced_snapshot_run obtain w1 w' where
    g: "generate_datasets rotating_lib loader0 world_snapshot = Inr w1"
    and ld: "load_data rotating_lib loader0 True world_snapshot =
       Inr (PyMap
             [PyTuple [PyArray (Arr1 [6, 0, 0, 0]), PyArray (Arr1 [2, 4, 6, 8]), PyArray (Arr1 [3, 7, 0, 0])],
              PyTuple [PyInt 3, PyInt 2, PyInt 2],
              PyTuple [PyArray (Arr1 [0, 0, 0, 0])],
              PyTuple [PyInt 2]], w')"
    and l: "logged w' = [''Generating data'', ''Data generated'', ''Loading data from filesystem'', ''Data loaded'']"
    by blast
  have "Inr (PyMap ts) \<noteq> map_sum id fst (load_datasets rotating_lib loader0 w1)" for ts
  proof (cases "load_datasets rotating_lib loader0 w1")
    case (Inl e)
    then show ?thesis by simp
  next
    case (Inr p)
    obtain r w2 where p: "p = (r, w2)" by (cases p) auto
    from load_datasets_Inr [OF Inr [unfolded p] draws_orders_rotating_lib] Inr p
    show ?thesis by auto
  qed
  with g ld l loader0_flags(1) show ?thesis by simp
qed

text \<open>
  C2, amended. \<open>load_data\<close> first regenerates both splits when \<open>force_recreate\<close> is set.
  Then the load-from-snapshot flag decides, whether or not \<open>force_recreate\<close> was set:
  when it is set the result is the snapshot load's, which depends on the snapshot files
  alone and leaves the generated layout as it is; when it is not set, generation runs if
  a split's destination directory is absent, and the Loader pass gives the result.
\<close>

theorem load_data_strategy:
  "(load_from_file self \<longrightarrow>
      load_data L self force w =
        (case (if force then generate_datasets L self w else Inr w) of
           Inl e \<Rightarrow> Inl e
         | Inr w1 \<Rightarrow> dataloader_load_from_file w1)) \<and>
   (\<not> load_from_file self \<longrightarrow>
      load_data L self force w =
        (case (if force then generate_datasets L self w else Inr w) of
           Inl e \<Rightarrow> Inl e
         | Inr w1 \<Rightarrow>
             (case (if train_dest_dir self \<in> dirs w1 \<and> test_dest_dir self \<in> dirs w1
                    then Inr w1 else generate_datasets L self w1) of
                Inl e \<Rightarrow> Inl e
              | Inr w2 \<Rightarrow> load_datasets L self w2))) \<and>
   (\<forall>w1 w2. npys w1 = npys w2 \<longrightarrow>
      map_sum id fst (dataloader_load_from_file w1) = map_sum id fst (dataloader_load_from_file w2)) \<and>
   (\<forall>r w'. dataloader_load_from_file w = Inr (r, w') \<longrightarrow>
      wavs w' = wavs w \<and> dirs w' = dirs w \<and> src_wavs w' = src_wavs w)"
  using load_data_unfold_snapshot [of self L force w] load_data_unfold_loader [of self L force w]
    dlff_layout dlff_frame [of w]
  by blast

theorem load_data_strategy_witness:
  "load_from_file loader0 \<and>
   load_data rotating_lib loader0 True world_snapshot =
     (case generate_datasets rotating_lib loader0 world_snapshot of
        Inl e \<Rightarrow> Inl e
      | Inr w1 \<Rightarrow> dataloader_load_from_file w1) \<and>
   \<not> load_from_file loader4 \<and>
   load_data rotating_lib loader4 False world_layout = load_datasets rotating_lib loader4 world_layout \<and>
   npys world_snapshot = npys (world_snapshot\<lparr>wavs := wavs world_layout\<rparr>) \<and>
   map_sum id fst (dataloader_load_from_file world_snapshot) =
     map_sum id fst (dataloader_load_from_file (world_snapshot\<lparr>wavs := wavs world_layout\<rparr>)) \<and>
   (\<exists>r w'. dataloader_load_from_file world_snapshot = Inr (r, w') \<and>
           wavs w' = wavs world_snapshot \<and> dirs w' = dirs world_snapshot \<and>
           src_wavs w' = src_wavs world_snapshot)"
proof -
  note a = load_data_strategy [of loader0 rotating_lib True world_snapshot]
  note b = load_data_strategy [of loader4 rotating_lib False world_layout]
  have 1: "load_data rotating_lib loader0 True world_snapshot =
     (case generate_datasets rotating_lib loader0 world_snapshot of
        Inl e \<Rightarrow> Inl e
      | Inr w1 \<Rightarrow> dataloader_load_from_file w1)"
    using a loader0_flags(1) by simp
  have 2: "load_data rotating_lib loader4 False world_layout = load_datasets rotating_lib loader4 world_layout"
    using b loader4_fields world_layout_dirs by simp
  have n: "npys world_snapshot = npys (world_snapshot\<lparr>wavs := wavs world_layout\<rparr>)" by simp
  have 3: "map_sum id fst (dataloader_load_from_file world_snapshot) =
     map_sum id fst (dataloader_load_from_file (world_snapshot\<lparr>wavs := wavs world_layout\<rparr>))"
    using a n by blast
  obtain r w' where d: "dataloader_load_from_file world_snapshot = Inr (r, w')"
    using world_snapshot_loaded by (cases "dataloader_load_from_file world_snapshot") auto
  with a have "wavs w' = wavs world_snapshot \<and> dirs w' = dirs world_snapshot \<and>
           src_wavs w' = src_wavs world_snapshot" by blast
  with d have 4: "\<exists>r w'. dataloader_load_from_file world_snapshot = Inr (r, w') \<and>
           wavs w' = wavs world_snapshot \<and> dirs w' = dirs world_snapshot \<and>
           src_wavs w' = src_wavs world_snapshot" by blast
  from 1 2 n 3 4 loader0_flags(1) loader4_fields(1) show ?thesis by (intro conjI)
qed

end
